theory Spec2Isabelle
  imports Main "HOL-Library.Word"
begin

section \<open>The A114 wire codec (A114Protocol)\<close>

subsection \<open>Bytes, buffers and errors\<close>

text \<open>
  A Node \<open>Buffer\<close> is a list of bytes. The faults of the program are values: the
  four header faults of \<open>decode\<close> and \<open>parseHeader\<close>, the unknown type tag of
  \<open>decodeValue\<close>, the \<open>ERR_OUT_OF_RANGE\<close> that the Buffer read and write
  methods raise, the three faults of the command layer and the two faults of the
  orchestrator. \<open>FuelExhausted\<close> belongs to the model only: it bounds the depth of the
  recursion of \<open>decodeValue\<close>, and with the bound that \<open>decodePayload\<close> supplies,
  one more than the length of the buffer, it is never returned.
\<close>

type_synonym byte = "8 word"
type_synonym buffer = "byte list"

datatype error =
    TooShort
  | WrongMagic
  | UnsupportedVersion nat
  | LengthMismatch
  | UnknownType nat
  | OutOfRange
  | UnknownCommand string
  | EmptyPacket
  | UnknownCommandCode nat
  | AgentNotRegistered
  | ReceiverNotFound
  | FuelExhausted

text \<open>
  A structured value. A JavaScript number is split by the outcome of
  \<open>Number.isInteger\<close>: \<open>JInt n\<close> is a number for which it holds, with its value
  (\<open>-0\<close> and \<open>0\<close>, which \<open>===\<close> does not tell apart, are both \<open>JInt 0\<close>);
  \<open>JFloat w\<close> is a number for which it fails, carried as the 64 bits that
  \<open>writeDoubleBE\<close> writes. A string is carried as the bytes of its characters in
  UTF-8; a surrogate that is not part of a pair, which UTF-8 leaves out, is carried as
  the three bytes that the same scheme gives to its code (ED, then A0 to BF, then 80 to
  BF). The strings without a lone surrogate are the well-formed byte lists
  (\<open>valid_utf8\<close> below). An object is the list of its own properties in the order of
  \<open>Object.keys\<close>; its prototype is not part of the value. Equality of two values
  of the model is structural equality with numbers compared as by \<open>===\<close>, except
  that NaN equals NaN.
\<close>

datatype jsval =
    JNull
  | JBool bool
  | JInt int
  | JFloat "64 word"
  | JString string
  | JArray "jsval list"
  | JObject "(string \<times> jsval) list"

definition HEADER_SIZE :: nat where "HEADER_SIZE = 8"
definition VERSION :: nat where "VERSION = 1"

definition T_NULL :: nat where "T_NULL = 0x00"
definition T_BOOL :: nat where "T_BOOL = 0x01"
definition T_INT8 :: nat where "T_INT8 = 0x02"
definition T_INT16 :: nat where "T_INT16 = 0x03"
definition T_INT32 :: nat where "T_INT32 = 0x04"
definition T_FLOAT32 :: nat where "T_FLOAT32 = 0x05"
definition T_FLOAT64 :: nat where "T_FLOAT64 = 0x06"
definition T_STRING :: nat where "T_STRING = 0x07"
definition T_ARRAY :: nat where "T_ARRAY = 0x08"
definition T_OBJECT :: nat where "T_OBJECT = 0x09"
definition T_BINARY :: nat where "T_BINARY = 0x0A"

lemmas tag_defs = T_NULL_def T_BOOL_def T_INT8_def T_INT16_def T_INT32_def T_FLOAT32_def
  T_FLOAT64_def T_STRING_def T_ARRAY_def T_OBJECT_def T_BINARY_def

definition byte_of :: "nat \<Rightarrow> byte" where
  "byte_of n = of_nat (n mod 256)"

subsection \<open>UTF-8\<close>

text \<open>
  \<open>Buffer.from(s, 'utf8')\<close> gives the UTF-8 bytes of \<open>s\<close>, with U+FFFD, whose
  bytes are EF BF BD, in the place of every lone surrogate: \<open>replaceSurrogates\<close>,
  whose first argument counts the bytes still to be skipped, and \<open>surrogateTail\<close>,
  which tells whether the two bytes after an ED make it a surrogate.
  \<open>buf.toString('utf8')\<close> decodes any bytes: a well-formed sequence stands for
  its character, and every maximal ill-formed part is read as U+FFFD.
  \<open>startByte\<close> classifies a first byte: a character of its own, the lead of a
  sequence with the number of bytes to follow and the bounds of the next one, or a byte
  that can start nothing. \<open>utf8Decode needed lower upper seen\<close> is the decoder in the
  middle of a sequence: \<open>needed\<close> bytes are still to come, the next within
  \<open>lower\<close> and \<open>upper\<close>, and \<open>seen\<close> are the bytes read so far.
  \<open>wellFormed\<close> follows the same steps and tells whether no part is ill-formed.
\<close>

datatype utf8_start = Single | Lead nat nat nat | Illegal

definition startByte :: "nat \<Rightarrow> utf8_start" where
  "startByte b =
     (if b \<le> 0x7F then Single
      else if 0xC2 \<le> b \<and> b \<le> 0xDF then Lead 1 0x80 0xBF
      else if b = 0xE0 then Lead 2 0xA0 0xBF
      else if b = 0xED then Lead 2 0x80 0x9F
      else if 0xE1 \<le> b \<and> b \<le> 0xEF then Lead 2 0x80 0xBF
      else if b = 0xF0 then Lead 3 0x90 0xBF
      else if b = 0xF4 then Lead 3 0x80 0x8F
      else if 0xF1 \<le> b \<and> b \<le> 0xF3 then Lead 3 0x80 0xBF
      else Illegal)"

definition REPLACEMENT :: string where
  "REPLACEMENT = [char_of (0xEF :: nat), char_of (0xBF :: nat), char_of (0xBD :: nat)]"

fun utf8Decode :: "nat \<Rightarrow> nat \<Rightarrow> nat \<Rightarrow> string \<Rightarrow> string \<Rightarrow> string" where
  "utf8Decode needed lower upper seen [] = (if needed = 0 then [] else REPLACEMENT)"
| "utf8Decode needed lower upper seen (c # cs) =
     (if needed \<noteq> 0 \<and> lower \<le> (of_char c :: nat) \<and> (of_char c :: nat) \<le> upper then
        (if needed = 1 then seen @ c # utf8Decode 0 0x80 0xBF [] cs
         else utf8Decode (needed - 1) 0x80 0xBF (seen @ [c]) cs)
      else
        (if needed \<noteq> 0 then REPLACEMENT else []) @
        (case startByte (of_char c) of
           Single \<Rightarrow> c # utf8Decode 0 0x80 0xBF [] cs
         | Lead n lo hi \<Rightarrow> utf8Decode n lo hi [c] cs
         | Illegal \<Rightarrow> REPLACEMENT @ utf8Decode 0 0x80 0xBF [] cs))"

fun wellFormed :: "nat \<Rightarrow> nat \<Rightarrow> nat \<Rightarrow> string \<Rightarrow> bool" where
  "wellFormed needed lower upper [] = (needed = 0)"
| "wellFormed needed lower upper (c # cs) =
     (if needed \<noteq> 0 then
        lower \<le> (of_char c :: nat) \<and> (of_char c :: nat) \<le> upper
        \<and> wellFormed (needed - 1) 0x80 0xBF cs
      else
        (case startByte (of_char c) of
           Single \<Rightarrow> wellFormed 0 0x80 0xBF cs
         | Lead n lo hi \<Rightarrow> wellFormed n lo hi cs
         | Illegal \<Rightarrow> False))"

definition valid_utf8 :: "string \<Rightarrow> bool" where
  "valid_utf8 s = wellFormed 0 0x80 0xBF s"

definition surrogateTail :: "string \<Rightarrow> bool" where
  "surrogateTail cs =
     (case cs of
        b # c # _ \<Rightarrow> 0xA0 \<le> (of_char b :: nat) \<and> (of_char b :: nat) \<le> 0xBF
                      \<and> 0x80 \<le> (of_char c :: nat) \<and> (of_char c :: nat) \<le> 0xBF
      | _ \<Rightarrow> False)"

fun replaceSurrogates :: "nat \<Rightarrow> string \<Rightarrow> string" where
  "replaceSurrogates skip [] = []"
| "replaceSurrogates (Suc skip) (c # cs) = replaceSurrogates skip cs"
| "replaceSurrogates 0 (c # cs) =
     (if (of_char c :: nat) = 0xED \<and> surrogateTail cs
      then REPLACEMENT @ replaceSurrogates 2 cs
      else c # replaceSurrogates 0 cs)"

definition utf8 :: "string \<Rightarrow> buffer" where
  "utf8 s = map (\<lambda>c. byte_of (of_char c)) (replaceSurrogates 0 s)"

definition from_utf8 :: "buffer \<Rightarrow> string" where
  "from_utf8 bs = utf8Decode 0 0x80 0xBF [] (map (\<lambda>b. char_of (unat b)) bs)"

subsection \<open>Big-endian writes\<close>

definition be16 :: "nat \<Rightarrow> buffer" where
  "be16 n = [byte_of (n div 256), byte_of n]"

definition be32 :: "nat \<Rightarrow> buffer" where
  "be32 n = [byte_of (n div 16777216), byte_of (n div 65536), byte_of (n div 256), byte_of n]"

definition be64 :: "64 word \<Rightarrow> buffer" where
  "be64 w = (let n = unat w in
     [byte_of (n div 2 ^ 56), byte_of (n div 2 ^ 48), byte_of (n div 2 ^ 40),
      byte_of (n div 2 ^ 32), byte_of (n div 2 ^ 24), byte_of (n div 2 ^ 16),
      byte_of (n div 2 ^ 8), byte_of n])"

definition writeUInt32BE :: "nat \<Rightarrow> error + buffer" where
  "writeUInt32BE n = (if n < 4294967296 then Inr (be32 n) else Inl OutOfRange)"

definition writeInt8 :: "int \<Rightarrow> error + buffer" where
  "writeInt8 v = (if - 128 \<le> v \<and> v \<le> 127 then Inr [byte_of (nat (v mod 256))]
     else Inl OutOfRange)"

definition writeInt16BE :: "int \<Rightarrow> error + buffer" where
  "writeInt16BE v = (if - 32768 \<le> v \<and> v \<le> 32767 then Inr (be16 (nat (v mod 65536)))
     else Inl OutOfRange)"

definition writeInt32BE :: "int \<Rightarrow> error + buffer" where
  "writeInt32BE v = (if - 2147483648 \<le> v \<and> v \<le> 2147483647
     then Inr (be32 (nat (v mod 4294967296))) else Inl OutOfRange)"

definition writeDoubleBE :: "64 word \<Rightarrow> buffer" where
  "writeDoubleBE w = be64 w"

subsection \<open>encodeValue, encodePayload, createHeader, encode\<close>

text \<open>
  \<open>encodeValue\<close> pushes its chunks in order; the model returns their concatenation.
  The two \<open>for\<close> statements over the items of an array and over the keys of an object
  are \<open>encodeItems\<close> and \<open>encodePairs\<close>; a key is encoded as a string value.
\<close>

definition tagged :: "nat \<Rightarrow> error + buffer \<Rightarrow> error + buffer" where
  "tagged t r = (case r of Inl e \<Rightarrow> Inl e | Inr bs \<Rightarrow> Inr (byte_of t # bs))"

definition encodeString :: "string \<Rightarrow> error + buffer" where
  "encodeString s = (let strBuf = utf8 s in
     case tagged T_STRING (writeUInt32BE (length strBuf)) of
       Inl e \<Rightarrow> Inl e
     | Inr lenBuf \<Rightarrow> Inr (lenBuf @ strBuf))"

fun encodeValue :: "jsval \<Rightarrow> error + buffer"
  and encodeItems :: "jsval list \<Rightarrow> error + buffer"
  and encodePairs :: "(string \<times> jsval) list \<Rightarrow> error + buffer"
where
  "encodeValue JNull = Inr [byte_of T_NULL]"
| "encodeValue (JBool b) = Inr [byte_of T_BOOL, if b then 1 else 0]"
| "encodeValue (JInt v) =
     (if - 128 \<le> v \<and> v \<le> 127 then tagged T_INT8 (writeInt8 v)
      else if - 32768 \<le> v \<and> v \<le> 32767 then tagged T_INT16 (writeInt16BE v)
      else tagged T_INT32 (writeInt32BE v))"
| "encodeValue (JFloat w) = tagged T_FLOAT64 (Inr (writeDoubleBE w))"
| "encodeValue (JString s) = encodeString s"
| "encodeValue (JArray xs) =
     (case tagged T_ARRAY (writeUInt32BE (length xs)) of
        Inl e \<Rightarrow> Inl e
      | Inr lenBuf \<Rightarrow>
          (case encodeItems xs of Inl e \<Rightarrow> Inl e | Inr bs \<Rightarrow> Inr (lenBuf @ bs)))"
| "encodeValue (JObject ps) =
     (case tagged T_OBJECT (writeUInt32BE (length ps)) of
        Inl e \<Rightarrow> Inl e
      | Inr lenBuf \<Rightarrow>
          (case encodePairs ps of Inl e \<Rightarrow> Inl e | Inr bs \<Rightarrow> Inr (lenBuf @ bs)))"
| "encodeItems [] = Inr []"
| "encodeItems (x # xs) =
     (case encodeValue x of
        Inl e \<Rightarrow> Inl e
      | Inr b \<Rightarrow> (case encodeItems xs of Inl e \<Rightarrow> Inl e | Inr bs \<Rightarrow> Inr (b @ bs)))"
| "encodePairs [] = Inr []"
| "encodePairs (p # ps) =
     (case encodeString (fst p) of
        Inl e \<Rightarrow> Inl e
      | Inr kb \<Rightarrow>
          (case encodeValue (snd p) of
             Inl e \<Rightarrow> Inl e
           | Inr vb \<Rightarrow>
               (case encodePairs ps of Inl e \<Rightarrow> Inl e | Inr bs \<Rightarrow> Inr (kb @ vb @ bs))))"

definition encodePayload :: "jsval \<Rightarrow> error + buffer" where
  "encodePayload data = encodeValue data"

definition createHeader :: "nat \<Rightarrow> error + buffer" where
  "createHeader payloadLength =
     (case writeUInt32BE payloadLength of
        Inl e \<Rightarrow> Inl e
      | Inr len \<Rightarrow> Inr ([0xA1, 0x14, byte_of VERSION, 0x00] @ len))"

definition encode :: "jsval \<Rightarrow> error + buffer" where
  "encode data =
     (case encodePayload data of
        Inl e \<Rightarrow> Inl e
      | Inr payload \<Rightarrow>
          (case createHeader (length payload) of
             Inl e \<Rightarrow> Inl e
           | Inr header \<Rightarrow> Inr (header @ payload)))"

subsection \<open>Big-endian reads\<close>

text \<open>
  A Buffer read raises \<open>ERR_OUT_OF_RANGE\<close> unless all its bytes lie inside the
  buffer. \<open>subarray\<close> raises nothing: it clamps both ends to the buffer.
\<close>

definition bytes_at :: "buffer \<Rightarrow> nat \<Rightarrow> nat \<Rightarrow> error + buffer" where
  "bytes_at buf off n =
     (if off + n \<le> length buf then Inr (take n (drop off buf)) else Inl OutOfRange)"

definition uint_be :: "buffer \<Rightarrow> nat" where
  "uint_be bs = foldl (\<lambda>acc b. acc * 256 + unat b) 0 bs"

definition to_signed :: "nat \<Rightarrow> nat \<Rightarrow> int" where
  "to_signed bits u = (if 2 ^ (bits - 1) \<le> u then int u - 2 ^ bits else int u)"

definition readUInt8 :: "buffer \<Rightarrow> nat \<Rightarrow> error + nat" where
  "readUInt8 buf off = map_sum id uint_be (bytes_at buf off 1)"

definition readUInt32BE :: "buffer \<Rightarrow> nat \<Rightarrow> error + nat" where
  "readUInt32BE buf off = map_sum id uint_be (bytes_at buf off 4)"

definition readInt8 :: "buffer \<Rightarrow> nat \<Rightarrow> error + int" where
  "readInt8 buf off = map_sum id (\<lambda>bs. to_signed 8 (uint_be bs)) (bytes_at buf off 1)"

definition readInt16BE :: "buffer \<Rightarrow> nat \<Rightarrow> error + int" where
  "readInt16BE buf off = map_sum id (\<lambda>bs. to_signed 16 (uint_be bs)) (bytes_at buf off 2)"

definition readInt32BE :: "buffer \<Rightarrow> nat \<Rightarrow> error + int" where
  "readInt32BE buf off = map_sum id (\<lambda>bs. to_signed 32 (uint_be bs)) (bytes_at buf off 4)"

definition readDoubleBE :: "buffer \<Rightarrow> nat \<Rightarrow> error + 64 word" where
  "readDoubleBE buf off = map_sum id (\<lambda>bs. of_nat (uint_be bs)) (bytes_at buf off 8)"

definition subarray :: "buffer \<Rightarrow> nat \<Rightarrow> nat \<Rightarrow> buffer" where
  "subarray buf start end = take (end - start) (drop start buf)"

subsection \<open>decodeValue, decodePayload, parseHeader, decode\<close>

text \<open>
  \<open>obj[key] = value\<close> on an object that started as \<open>{}\<close>. The key is converted
  to a property name: a string is its own name, and \<open>toStr\<close> stands for the conversion
  that the JavaScript runtime applies to any other value. The name \<open>__proto__\<close> is
  found as an accessor on \<open>Object.prototype\<close>, whose setter is called instead: the
  object gets no property of its own. An existing property keeps its place and takes
  the new value. A new property whose name is an array index (the decimal numeral,
  without a leading zero, of a number below \<open>2\<^sup>3\<^sup>2 - 1\<close>) is listed among the array
  indices in ascending order, which come before all other names; any other new
  property is listed last.

  The setter of \<open>__proto__\<close> gives the object a new prototype when the value is an
  object or \<open>null\<close>. The model keeps the own properties only, and takes the accessor
  to be in reach at every assignment; it is out of reach only for an object whose
  prototype chain was cut by an earlier assignment to \<open>__proto__\<close> of the same
  object, that is, for a second such key in one object.
\<close>

definition toPropertyKey :: "(jsval \<Rightarrow> string) \<Rightarrow> jsval \<Rightarrow> string" where
  "toPropertyKey toStr k = (case k of JString s \<Rightarrow> s | _ \<Rightarrow> toStr k)"

definition isDigit :: "char \<Rightarrow> bool" where
  "isDigit c = (48 \<le> (of_char c :: nat) \<and> (of_char c :: nat) \<le> 57)"

definition digitsValue :: "string \<Rightarrow> nat" where
  "digitsValue s = foldl (\<lambda>acc c. acc * 10 + ((of_char c :: nat) - 48)) 0 s"

definition arrayIndex :: "string \<Rightarrow> nat option" where
  "arrayIndex k =
     (if k \<noteq> [] \<and> list_all isDigit k \<and> (length k = 1 \<or> hd k \<noteq> CHR ''0'')
         \<and> digitsValue k < 4294967295
      then Some (digitsValue k) else None)"

fun replaceProperty :: "(string \<times> jsval) list \<Rightarrow> string \<Rightarrow> jsval \<Rightarrow> (string \<times> jsval) list" where
  "replaceProperty [] k v = []"
| "replaceProperty (p # ps) k v =
     (if fst p = k then (k, v) # ps else p # replaceProperty ps k v)"

fun insertIndexed :: "(string \<times> jsval) list \<Rightarrow> nat \<Rightarrow> string \<Rightarrow> jsval \<Rightarrow> (string \<times> jsval) list" where
  "insertIndexed [] n k v = [(k, v)]"
| "insertIndexed (p # ps) n k v =
     (case arrayIndex (fst p) of
        Some m \<Rightarrow> if m < n then p # insertIndexed ps n k v else (k, v) # p # ps
      | None \<Rightarrow> (k, v) # p # ps)"

definition putProperty :: "(string \<times> jsval) list \<Rightarrow> string \<Rightarrow> jsval \<Rightarrow> (string \<times> jsval) list" where
  "putProperty obj k v =
     (if k = ''__proto__'' then obj
      else if k \<in> set (map fst obj) then replaceProperty obj k v
      else case arrayIndex k of
             Some n \<Rightarrow> insertIndexed obj n k v
           | None \<Rightarrow> obj @ [(k, v)])"

text \<open>
  The number that \<open>readDoubleBE\<close> returns, as a value of the model. With sign bit
  \<open>s\<close>, exponent field \<open>e\<close> and fraction field \<open>m\<close>, the double is an integer
  when it is a zero, when \<open>e \<ge> 1075\<close>, and when \<open>1023 \<le> e < 1075\<close> and the low
  \<open>1075 - e\<close> bits of \<open>2\<^sup>5\<^sup>2 + m\<close> are zero; infinities, NaN, subnormal numbers
  and all other doubles are not.
\<close>

definition doubleToNumber :: "64 word \<Rightarrow> jsval" where
  "doubleToNumber w =
     (let n = unat w;
          e = (n div 2 ^ 52) mod 2048;
          m = n mod 2 ^ 52;
          sig = 2 ^ 52 + m;
          signed = (\<lambda>a. if n < 2 ^ 63 then int a else - int a)
      in if e = 2047 then JFloat w
         else if e = 0 then (if m = 0 then JInt 0 else JFloat w)
         else if 1075 \<le> e then JInt (signed (sig * 2 ^ (e - 1075)))
         else if 1023 \<le> e \<and> sig mod 2 ^ (1075 - e) = 0
           then JInt (signed (sig div 2 ^ (1075 - e)))
         else JFloat w)"

text \<open>
  \<open>decodeValue fuel buffer offset\<close> returns the value and the new offset;
  \<open>offset\<close> below is the offset after the type byte (\<open>offset++\<close>). The cases of
  the \<open>switch\<close> that do not recurse are \<open>decodeScalar\<close>; it has no case for
  FLOAT32 and BINARY, which reach \<open>default\<close>. The \<open>for\<close> statements of the ARRAY and OBJECT cases
  are \<open>decodeItems\<close> and \<open>decodePairs\<close>, counting the remaining iterations down.
\<close>

definition decodeScalar :: "nat \<Rightarrow> buffer \<Rightarrow> nat \<Rightarrow> error + jsval \<times> nat" where
  "decodeScalar t buf offset =
     (if t = T_NULL then Inr (JNull, offset)
      else if t = T_BOOL then
        map_sum id (\<lambda>b. (JBool (b = 1), offset + 1)) (readUInt8 buf offset)
      else if t = T_INT8 then
        map_sum id (\<lambda>v. (JInt v, offset + 1)) (readInt8 buf offset)
      else if t = T_INT16 then
        map_sum id (\<lambda>v. (JInt v, offset + 2)) (readInt16BE buf offset)
      else if t = T_INT32 then
        map_sum id (\<lambda>v. (JInt v, offset + 4)) (readInt32BE buf offset)
      else if t = T_FLOAT64 then
        map_sum id (\<lambda>w. (doubleToNumber w, offset + 8)) (readDoubleBE buf offset)
      else if t = T_STRING then
        map_sum id
          (\<lambda>strLen. (JString (from_utf8 (subarray buf (offset + 4) (offset + 4 + strLen))),
                      offset + 4 + strLen))
          (readUInt32BE buf offset)
      else Inl (UnknownType t))"

function (sequential) decodeValue :: "(jsval \<Rightarrow> string) \<Rightarrow> nat \<Rightarrow> buffer \<Rightarrow> nat \<Rightarrow> error + jsval \<times> nat"
  and decodeItems ::
    "(jsval \<Rightarrow> string) \<Rightarrow> nat \<Rightarrow> buffer \<Rightarrow> nat \<Rightarrow> nat \<Rightarrow> jsval list \<Rightarrow> error + jsval list \<times> nat"
  and decodePairs ::
    "(jsval \<Rightarrow> string) \<Rightarrow> nat \<Rightarrow> buffer \<Rightarrow> nat \<Rightarrow> nat \<Rightarrow> (string \<times> jsval) list
      \<Rightarrow> error + (string \<times> jsval) list \<times> nat"
where
  "decodeValue toStr 0 buf off = Inl FuelExhausted"
| "decodeValue toStr (Suc fuel) buf off =
     (case readUInt8 buf off of
        Inl e \<Rightarrow> Inl e
      | Inr t \<Rightarrow>
          if t = T_ARRAY then
            (case readUInt32BE buf (off + 1) of
               Inl e \<Rightarrow> Inl e
             | Inr arrLen \<Rightarrow>
                 map_sum id (\<lambda>(arr, off'). (JArray arr, off'))
                   (decodeItems toStr fuel buf (off + 1 + 4) arrLen []))
          else if t = T_OBJECT then
            (case readUInt32BE buf (off + 1) of
               Inl e \<Rightarrow> Inl e
             | Inr objLen \<Rightarrow>
                 map_sum id (\<lambda>(obj, off'). (JObject obj, off'))
                   (decodePairs toStr fuel buf (off + 1 + 4) objLen []))
          else decodeScalar t buf (off + 1))"
| "decodeItems toStr fuel buf off 0 arr = Inr (arr, off)"
| "decodeItems toStr fuel buf off (Suc n) arr =
     (case decodeValue toStr fuel buf off of
        Inl e \<Rightarrow> Inl e
      | Inr r \<Rightarrow> decodeItems toStr fuel buf (snd r) n (arr @ [fst r]))"
| "decodePairs toStr fuel buf off 0 obj = Inr (obj, off)"
| "decodePairs toStr fuel buf off (Suc n) obj =
     (case decodeValue toStr fuel buf off of
        Inl e \<Rightarrow> Inl e
      | Inr keyResult \<Rightarrow>
          (case decodeValue toStr fuel buf (snd keyResult) of
             Inl e \<Rightarrow> Inl e
           | Inr valueResult \<Rightarrow>
               decodePairs toStr fuel buf (snd valueResult) n
                 (putProperty obj (toPropertyKey toStr (fst keyResult)) (fst valueResult))))"
  by pat_completeness auto
termination
  by (relation "measures [
        (\<lambda>x. case x of Inl (_, f, _) \<Rightarrow> f | Inr (Inl (_, f, _)) \<Rightarrow> f | Inr (Inr (_, f, _)) \<Rightarrow> f),
        (\<lambda>x. case x of Inl _ \<Rightarrow> 0 | Inr (Inl (_, _, _, _, n, _)) \<Rightarrow> Suc n
                        | Inr (Inr (_, _, _, _, n, _)) \<Rightarrow> Suc n)]") auto

definition decodePayload :: "(jsval \<Rightarrow> string) \<Rightarrow> buffer \<Rightarrow> error + jsval" where
  "decodePayload toStr payload =
     map_sum id fst (decodeValue toStr (Suc (length payload)) payload 0)"

text \<open>\<open>parseHeader\<close> is given the first 8 bytes and returns version, flags and length.\<close>

definition parseHeader :: "buffer \<Rightarrow> error + nat \<times> nat \<times> nat" where
  "parseHeader header =
     (case readUInt8 header 0 of Inl e \<Rightarrow> Inl e | Inr magic1 \<Rightarrow>
     (case readUInt8 header 1 of Inl e \<Rightarrow> Inl e | Inr magic2 \<Rightarrow>
      if magic1 \<noteq> 0xA1 \<or> magic2 \<noteq> 0x14 then Inl WrongMagic
      else
       (case readUInt8 header 2 of Inl e \<Rightarrow> Inl e | Inr version \<Rightarrow>
        if version \<noteq> VERSION then Inl (UnsupportedVersion version)
        else
         (case readUInt8 header 3 of Inl e \<Rightarrow> Inl e | Inr flags \<Rightarrow>
         (case readUInt32BE header 4 of Inl e \<Rightarrow> Inl e | Inr payloadLength \<Rightarrow>
          Inr (version, flags, payloadLength))))))"

definition decode :: "(jsval \<Rightarrow> string) \<Rightarrow> buffer \<Rightarrow> error + jsval" where
  "decode toStr buffer =
     (if length buffer < HEADER_SIZE then Inl TooShort
      else
        case parseHeader (subarray buffer 0 HEADER_SIZE) of
          Inl e \<Rightarrow> Inl e
        | Inr (version, flags, payloadLength) \<Rightarrow>
            let payload = drop HEADER_SIZE buffer in
            if length payload \<noteq> payloadLength then Inl LengthMismatch
            else decodePayload toStr payload)"

text \<open>
  The source raises plain \<open>Error\<close> objects, told apart by their messages. The faults
  that \<open>decode\<close> can raise on a malformed, truncated or unsupported packet are the
  ones the specification calls FORMAT_ERROR.
\<close>

definition FORMAT_ERROR :: "error \<Rightarrow> bool" where
  "FORMAT_ERROR e = (case e of TooShort \<Rightarrow> True | WrongMagic \<Rightarrow> True
     | UnsupportedVersion _ \<Rightarrow> True | LengthMismatch \<Rightarrow> True | UnknownType _ \<Rightarrow> True
     | OutOfRange \<Rightarrow> True | _ \<Rightarrow> False)"

subsection \<open>The domain of the codec\<close>

text \<open>
  \<open>ownKeyOrder\<close> is the order in which \<open>Object.keys\<close> lists the names of any
  object: the array indices first, ascending, then the other names.

  The values of the round trip. Two conditions say that the value of the model
  stands for a value of JavaScript: a \<open>JFloat\<close> is no integer, and the keys of an
  object are pairwise different and in the order of \<open>Object.keys\<close>. Three conditions
  restrict the values: every integer fits the INT32 tag, no string and no key has a
  lone surrogate, and no key is \<open>__proto__\<close>.
  \<open>payload_size\<close> is the number of bytes \<open>encodeValue\<close> writes for such a value,
  and \<open>nesting\<close> the depth of the calls of \<open>decodeValue\<close> that read it back.
\<close>

fun ownKeyOrder :: "string list \<Rightarrow> bool" where
  "ownKeyOrder (k1 # k2 # ks) =
     ((case arrayIndex k2 of
         Some b \<Rightarrow> (case arrayIndex k1 of Some a \<Rightarrow> a < b | None \<Rightarrow> False)
       | None \<Rightarrow> True)
      \<and> ownKeyOrder (k2 # ks))"
| "ownKeyOrder ks = True"

fun codec_domain :: "jsval \<Rightarrow> bool"
  and domain_items :: "jsval list \<Rightarrow> bool"
  and domain_pairs :: "(string \<times> jsval) list \<Rightarrow> bool"
where
  "codec_domain JNull = True"
| "codec_domain (JBool b) = True"
| "codec_domain (JInt v) = (- 2147483648 \<le> v \<and> v \<le> 2147483647)"
| "codec_domain (JFloat w) = (doubleToNumber w = JFloat w)"
| "codec_domain (JString s) = valid_utf8 s"
| "codec_domain (JArray xs) = domain_items xs"
| "codec_domain (JObject ps) =
     (distinct (map fst ps) \<and> ownKeyOrder (map fst ps) \<and> domain_pairs ps)"
| "domain_items [] = True"
| "domain_items (x # xs) = (codec_domain x \<and> domain_items xs)"
| "domain_pairs [] = True"
| "domain_pairs (p # ps) =
     (fst p \<noteq> ''__proto__'' \<and> valid_utf8 (fst p) \<and> codec_domain (snd p) \<and> domain_pairs ps)"

fun payload_size :: "jsval \<Rightarrow> nat"
  and items_size :: "jsval list \<Rightarrow> nat"
  and pairs_size :: "(string \<times> jsval) list \<Rightarrow> nat"
where
  "payload_size JNull = 1"
| "payload_size (JBool b) = 2"
| "payload_size (JInt v) =
     (if - 128 \<le> v \<and> v \<le> 127 then 2 else if - 32768 \<le> v \<and> v \<le> 32767 then 3 else 5)"
| "payload_size (JFloat w) = 9"
| "payload_size (JString s) = 5 + length s"
| "payload_size (JArray xs) = 5 + items_size xs"
| "payload_size (JObject ps) = 5 + pairs_size ps"
| "items_size [] = 0"
| "items_size (x # xs) = payload_size x + items_size xs"
| "pairs_size [] = 0"
| "pairs_size (p # ps) = 5 + length (fst p) + payload_size (snd p) + pairs_size ps"

fun nesting :: "jsval \<Rightarrow> nat"
  and nesting_items :: "jsval list \<Rightarrow> nat"
  and nesting_pairs :: "(string \<times> jsval) list \<Rightarrow> nat"
where
  "nesting (JArray xs) = Suc (nesting_items xs)"
| "nesting (JObject ps) = Suc (nesting_pairs ps)"
| "nesting v = 1"
| "nesting_items [] = 0"
| "nesting_items (x # xs) = max (nesting x) (nesting_items xs)"
| "nesting_pairs [] = 0"
| "nesting_pairs (p # ps) = max 1 (max (nesting (snd p)) (nesting_pairs ps))"

fun be_bytes :: "nat \<Rightarrow> nat \<Rightarrow> buffer" where
  "be_bytes 0 n = []"
| "be_bytes (Suc k) n = be_bytes k (n div 256) @ [byte_of n]"

subsection \<open>Command packets\<close>

text \<open>
  The command table, in the order of the object literal. \<open>truthy\<close> is the test
  \<open>data ? \<dots> : \<dots>\<close> of \<open>createCommand\<close> on its optional argument: an absent
  argument, \<open>null\<close>, \<open>false\<close>, \<open>0\<close>, \<open>NaN\<close> and the empty string are falsy.
\<close>

definition COMMANDS :: "(string \<times> nat) list" where
  "COMMANDS =
    [(''INIT'', 0x01), (''TERM'', 0x02), (''ACK'', 0x03), (''NACK'', 0x04),
     (''SEND'', 0x10), (''RECV'', 0x11), (''PUSH'', 0x12), (''PULL'', 0x13),
     (''STORE'', 0x20), (''LOAD'', 0x21), (''CLEAR'', 0x22), (''SYNC'', 0x23),
     (''EXEC'', 0x30), (''EVAL'', 0x31), (''COMP'', 0x32), (''OPTIM'', 0x33),
     (''STAT'', 0x40), (''CONF'', 0x41), (''DIAG'', 0x42), (''RESET'', 0x43)]"

definition isNaN :: "64 word \<Rightarrow> bool" where
  "isNaN w = (let n = unat w in
     (n div 2 ^ 52) mod 2048 = 2047 \<and> n mod 2 ^ 52 \<noteq> 0)"

fun truthy :: "jsval option \<Rightarrow> bool" where
  "truthy None = False"
| "truthy (Some JNull) = False"
| "truthy (Some (JBool b)) = b"
| "truthy (Some (JInt v)) = (v \<noteq> 0)"
| "truthy (Some (JFloat w)) = (\<not> isNaN w)"
| "truthy (Some (JString s)) = (s \<noteq> [])"
| "truthy (Some (JArray xs)) = True"
| "truthy (Some (JObject ps)) = True"

text \<open>
  \<open>this.COMMANDS[command]\<close> reads a property of an object literal: for a name that
  is not in the table it is \<open>undefined\<close>, unless the name is one of the members that
  every object inherits from \<open>Object.prototype\<close>. Such a member is a function (or,
  for \<open>__proto__\<close>, an object), and \<open>Buffer.from([commandCode])\<close> writes the byte
  0 for it.
\<close>

definition OBJECT_PROTOTYPE :: "string list" where
  "OBJECT_PROTOTYPE =
    [''constructor'', ''__defineGetter__'', ''__defineSetter__'', ''hasOwnProperty'',
     ''__lookupGetter__'', ''__lookupSetter__'', ''isPrototypeOf'',
     ''propertyIsEnumerable'', ''toString'', ''valueOf'', ''__proto__'',
     ''toLocaleString'']"

definition commandByte :: "string \<Rightarrow> nat option" where
  "commandByte command =
     (case map_of COMMANDS command of
        Some commandCode \<Rightarrow> Some commandCode
      | None \<Rightarrow> if command \<in> set OBJECT_PROTOTYPE then Some 0 else None)"

definition createCommand :: "string \<Rightarrow> jsval option \<Rightarrow> error + buffer" where
  "createCommand command data =
     (case commandByte command of
        None \<Rightarrow> Inl (UnknownCommand command)
      | Some commandCode \<Rightarrow>
          (case (if truthy data then encodePayload (the data) else Inr []) of
             Inl e \<Rightarrow> Inl e
           | Inr dataBuf \<Rightarrow> Inr ([byte_of commandCode] @ dataBuf)))"

definition parseCommand :: "(jsval \<Rightarrow> string) \<Rightarrow> buffer \<Rightarrow> error + string \<times> jsval option" where
  "parseCommand toStr buffer =
     (if length buffer = 0 then Inl EmptyPacket
      else
        case readUInt8 buffer 0 of
          Inl e \<Rightarrow> Inl e
        | Inr commandCode \<Rightarrow>
            (case find (\<lambda>key. map_of COMMANDS key = Some commandCode) (map fst COMMANDS) of
               None \<Rightarrow> Inl (UnknownCommandCode commandCode)
             | Some commandName \<Rightarrow>
                 if length buffer > 1 then
                   map_sum id (\<lambda>v. (commandName, Some v)) (decodePayload toStr (subarray buffer 1 (length buffer)))
                 else Inr (commandName, None)))"

section \<open>The content transform (TokenOptimizer)\<close>

subsection \<open>The abbreviation tables\<close>

text \<open>
  \<open>commonTerms\<close> in the order of the object literal. \<open>abbreviations\<close> is filled
  with \<open>set(full, abbrev)\<close> and \<open>reverseAbbreviations\<close> with
  \<open>set(abbrev, full)\<close> in that order; a \<open>Map\<close> keeps a key at the place of its
  first \<open>set\<close> and gives it the value of the last one.
\<close>

definition commonTerms :: "(string \<times> string) list" where
  "commonTerms =
    [(''artificial_intelligence'', ''ai''), (''machine_learning'', ''ml''),
     (''neural_network'', ''nn''), (''deep_learning'', ''dl''),
     (''natural_language_processing'', ''nlp''), (''computer_vision'', ''cv''),
     (''reinforcement_learning'', ''rl''), (''function'', ''fn''), (''variable'', ''var''),
     (''object'', ''obj''), (''array'', ''arr''), (''string'', ''str''), (''number'', ''num''),
     (''boolean'', ''bool''), (''undefined'', ''undef''), (''null'', ''nil''),
     (''message'', ''msg''), (''request'', ''req''), (''response'', ''res''),
     (''error'', ''err''), (''success'', ''ok''), (''failed'', ''fail''),
     (''processing'', ''proc''), (''optimization'', ''opt''), (''configuration'', ''cfg''),
     (''parameter'', ''param''), (''argument'', ''arg''), (''result'', ''res''),
     (''data'', ''dat''), (''information'', ''info''), (''content'', ''cont''),
     (''context'', ''ctx''), (''memory'', ''mem''), (''cache'', ''cch''),
     (''storage'', ''stor''), (''timestamp'', ''ts''), (''identifier'', ''id''),
     (''priority'', ''pri''), (''status'', ''stat''), (''type'', ''typ''),
     (''value'', ''val''), (''key'', ''k''), (''index'', ''idx''), (''length'', ''len''),
     (''size'', ''sz''), (''count'', ''cnt''), (''total'', ''tot''), (''maximum'', ''max''),
     (''minimum'', ''min''), (''average'', ''avg''), (''algorithm'', ''algo''),
     (''protocol'', ''proto''), (''interface'', ''iface''), (''implementation'', ''impl''),
     (''specification'', ''spec''), (''documentation'', ''doc''), (''reference'', ''ref''),
     (''version'', ''ver''), (''revision'', ''rev''), (''iteration'', ''iter''),
     (''execution'', ''exec''), (''evaluation'', ''eval''), (''validation'', ''valid''),
     (''verification'', ''verify''), (''initialization'', ''init''),
     (''termination'', ''term''), (''connection'', ''conn''), (''session'', ''sess''),
     (''transaction'', ''txn''), (''operation'', ''op''), (''instruction'', ''instr''),
     (''command'', ''cmd''), (''query'', ''qry''), (''search'', ''srch''),
     (''filter'', ''flt''), (''sort'', ''srt''), (''transform'', ''xfrm''),
     (''convert'', ''conv''), (''encode'', ''enc''), (''decode'', ''dec''),
     (''compress'', ''comp''), (''decompress'', ''decomp''), (''serialize'', ''ser''),
     (''deserialize'', ''deser'')]"

fun mapSet :: "('k \<times> 'v) list \<Rightarrow> 'k \<Rightarrow> 'v \<Rightarrow> ('k \<times> 'v) list" where
  "mapSet [] k v = [(k, v)]"
| "mapSet (p # ps) k v = (if fst p = k then (k, v) # ps else p # mapSet ps k v)"

definition abbreviations :: "(string \<times> string) list" where
  "abbreviations = fold (\<lambda>(full, abbrev) m. mapSet m full abbrev) commonTerms []"

definition reverseAbbreviations :: "(string \<times> string) list" where
  "reverseAbbreviations = fold (\<lambda>(full, abbrev) m. mapSet m abbrev full) commonTerms []"

subsection \<open>What Node provides\<close>

text \<open>
  \<open>zlib.deflateSync\<close>, \<open>zlib.inflateSync\<close> and the base64 conversions of
  \<open>Buffer\<close> belong to Node and are parameters of the model; \<open>None\<close> is a thrown
  exception, which both callers catch. \<open>unicodeLowerCase\<close> is
  \<open>String.prototype.toLowerCase\<close> on the strings that hold a character outside
  ASCII, where it follows the case mappings of Unicode. \<open>no_zlib\<close> is the instance
  where \<open>deflateSync\<close> and \<open>inflateSync\<close> fail.
\<close>

record zlib =
  deflateSync :: "buffer \<Rightarrow> buffer option"
  inflateSync :: "buffer \<Rightarrow> buffer option"
  toBase64 :: "buffer \<Rightarrow> string"
  fromBase64 :: "string \<Rightarrow> buffer"
  unicodeLowerCase :: "string \<Rightarrow> string"

definition no_zlib :: zlib where
  "no_zlib = \<lparr>deflateSync = (\<lambda>b. None), inflateSync = (\<lambda>b. None),
              toBase64 = (\<lambda>b. []), fromBase64 = (\<lambda>s. []),
              unicodeLowerCase = (\<lambda>s. s)\<rparr>"

subsection \<open>Characters and the regular expressions of the source\<close>

text \<open>
  A string is its UTF-8 bytes, as in the codec: a character of ASCII is one byte below
  128, and every byte of any other character is 128 or more. In a regular expression
  without the \<open>u\<close> flag, \<open>\w\<close> is an ASCII letter, a digit or the underscore, and
  under the \<open>i\<close> flag an ASCII letter matches its other case and no character outside
  ASCII. \<open>toLowerCase\<close> maps A to Z to a to z in a string of ASCII characters; on any
  other string it is \<open>unicodeLowerCase\<close>. \<open>length\<close> counts UTF-16 code units: one
  for each character, and two for a character of four bytes.
\<close>

definition isAscii :: "char \<Rightarrow> bool" where
  "isAscii c = ((of_char c :: nat) < 128)"

definition isUpper :: "char \<Rightarrow> bool" where
  "isUpper c = (65 \<le> (of_char c :: nat) \<and> (of_char c :: nat) \<le> 90)"

definition isLower :: "char \<Rightarrow> bool" where
  "isLower c = (97 \<le> (of_char c :: nat) \<and> (of_char c :: nat) \<le> 122)"

definition isWordChar :: "char \<Rightarrow> bool" where
  "isWordChar c = (isUpper c \<or> isLower c \<or> isDigit c \<or> c = CHR ''_'')"

definition toLowerChar :: "char \<Rightarrow> char" where
  "toLowerChar c = (if isUpper c then char_of ((of_char c :: nat) + 32) else c)"

definition toUpperChar :: "char \<Rightarrow> char" where
  "toUpperChar c = (if isLower c then char_of ((of_char c :: nat) - 32) else c)"

definition toLowerCase :: "zlib \<Rightarrow> string \<Rightarrow> string" where
  "toLowerCase z s = (if list_all isAscii s then map toLowerChar s else unicodeLowerCase z s)"

definition utf16Length :: "string \<Rightarrow> nat" where
  "utf16Length s =
     length (filter (\<lambda>c. (of_char c :: nat) < 0x80 \<or> 0xC0 \<le> (of_char c :: nat)) s)
     + length (filter (\<lambda>c. 0xF0 \<le> (of_char c :: nat)) s)"

text \<open>
  \<open>text.replace(new RegExp(`\\b${word}\\b`, 'gi'), repl)\<close> for a word of ASCII
  characters that begins and ends with a word character, as every entry of the tables
  does: scanning from the left, the word matches at a position where the character
  before is not a word character, the text continues with the word in any case, and the
  character after is not a word character; the scan goes on after the match.
\<close>

definition matchesAt :: "string \<Rightarrow> string \<Rightarrow> bool" where
  "matchesAt word text =
     (length word \<le> length text
      \<and> map toLowerChar (take (length word) text) = map toLowerChar word
      \<and> (case drop (length word) text of [] \<Rightarrow> True | c # _ \<Rightarrow> \<not> isWordChar c))"

fun replaceWordFrom :: "string \<Rightarrow> string \<Rightarrow> bool \<Rightarrow> nat \<Rightarrow> string \<Rightarrow> string" where
  "replaceWordFrom word repl prevWord skip [] = []"
| "replaceWordFrom word repl prevWord (Suc skip) (c # cs) =
     replaceWordFrom word repl (isWordChar c) skip cs"
| "replaceWordFrom word repl prevWord 0 (c # cs) =
     (if \<not> prevWord \<and> matchesAt word (c # cs)
      then repl @ replaceWordFrom word repl (isWordChar c) (length word - 1) cs
      else c # replaceWordFrom word repl (isWordChar c) 0 cs)"

definition replaceWord :: "string \<Rightarrow> string \<Rightarrow> string \<Rightarrow> string" where
  "replaceWord word repl text = replaceWordFrom word repl False 0 text"

text \<open>
  \<open>replace(/\s+/g, ' ')\<close> and \<open>trim()\<close>. Both know the same white space: the six
  characters of ASCII, U+00A0, U+1680, U+2000 to U+200A, U+2028, U+2029, U+202F,
  U+205F, U+3000 and U+FEFF, here with their bytes. \<open>spaceAt\<close> is the number of bytes
  of the white space character with which a string begins, and \<open>spaceAtEnd\<close> that of
  the one with which it ends, for a string given from its last byte to its first; both
  are 0 when there is none.
\<close>

definition WHITE_SPACE :: "nat list list" where
  "WHITE_SPACE =
    [[0x09], [0x0A], [0x0B], [0x0C], [0x0D], [0x20], [0xC2, 0xA0], [0xE1, 0x9A, 0x80],
     [0xE2, 0x80, 0x80], [0xE2, 0x80, 0x81], [0xE2, 0x80, 0x82], [0xE2, 0x80, 0x83],
     [0xE2, 0x80, 0x84], [0xE2, 0x80, 0x85], [0xE2, 0x80, 0x86], [0xE2, 0x80, 0x87],
     [0xE2, 0x80, 0x88], [0xE2, 0x80, 0x89], [0xE2, 0x80, 0x8A], [0xE2, 0x80, 0xA8],
     [0xE2, 0x80, 0xA9], [0xE2, 0x80, 0xAF], [0xE2, 0x81, 0x9F], [0xE3, 0x80, 0x80],
     [0xEF, 0xBB, 0xBF]]"

definition spaceAt :: "string \<Rightarrow> nat" where
  "spaceAt s =
     (case find (\<lambda>w. take (length w) (map of_char s) = w) WHITE_SPACE of
        Some w \<Rightarrow> length w | None \<Rightarrow> 0)"

definition spaceAtEnd :: "string \<Rightarrow> nat" where
  "spaceAtEnd r =
     (case find (\<lambda>w. take (length w) (map of_char r) = rev w) WHITE_SPACE of
        Some w \<Rightarrow> length w | None \<Rightarrow> 0)"

fun collapseSpaces :: "bool \<Rightarrow> nat \<Rightarrow> string \<Rightarrow> string" where
  "collapseSpaces inRun skip [] = []"
| "collapseSpaces inRun (Suc skip) (c # cs) = collapseSpaces inRun skip cs"
| "collapseSpaces inRun 0 (c # cs) =
     (case spaceAt (c # cs) of
        0 \<Rightarrow> c # collapseSpaces False 0 cs
      | Suc k \<Rightarrow> (if inRun then [] else '' '') @ collapseSpaces True k cs)"

fun trimStart :: "nat \<Rightarrow> string \<Rightarrow> string" where
  "trimStart skip [] = []"
| "trimStart (Suc skip) (c # cs) = trimStart skip cs"
| "trimStart 0 (c # cs) =
     (case spaceAt (c # cs) of 0 \<Rightarrow> c # cs | Suc k \<Rightarrow> trimStart k cs)"

fun trimEnd :: "nat \<Rightarrow> string \<Rightarrow> string" where
  "trimEnd skip [] = []"
| "trimEnd (Suc skip) (c # cs) = trimEnd skip cs"
| "trimEnd 0 (c # cs) =
     (case spaceAtEnd (c # cs) of 0 \<Rightarrow> c # cs | Suc k \<Rightarrow> trimEnd k cs)"

definition trim :: "string \<Rightarrow> string" where
  "trim s = rev (trimEnd 0 (rev (trimStart 0 s)))"

text \<open>
  \<open>replace(/([a-z])([A-Z])/g, '$1_$2')\<close>, \<open>replace(/_([a-z])/g, \<dots>toUpperCase())\<close>,
  and the replacement of a prefix (\<open>/^get_/\<close>) or of a suffix (\<open>/_id$/\<close>).
\<close>

fun camelToSnake :: "string \<Rightarrow> string" where
  "camelToSnake (a # b # cs) =
     (if isLower a \<and> isUpper b then a # CHR ''_'' # b # camelToSnake cs
      else a # camelToSnake (b # cs))"
| "camelToSnake cs = cs"

fun snakeToCamel :: "string \<Rightarrow> string" where
  "snakeToCamel (u # c # cs) =
     (if u = CHR ''_'' \<and> isLower c then toUpperChar c # snakeToCamel cs
      else u # snakeToCamel (c # cs))"
| "snakeToCamel cs = cs"

definition replacePrefix :: "string \<Rightarrow> string \<Rightarrow> string \<Rightarrow> string" where
  "replacePrefix p r s = (if take (length p) s = p then r @ drop (length p) s else s)"

definition replaceSuffix :: "string \<Rightarrow> string \<Rightarrow> string \<Rightarrow> string" where
  "replaceSuffix p r s =
     (if length p \<le> length s \<and> drop (length s - length p) s = p
      then take (length s - length p) s @ r else s)"

subsection \<open>compress and decompress\<close>

definition compressionThreshold :: nat where "compressionThreshold = 100"

text \<open>
  \<open>compressed.length\<close> is the length of a string, \<open>deflated.length\<close> that of a
  buffer; \<open>deflated.length < compressed.length * 0.8\<close> is written without the
  fraction.
\<close>

definition compressString :: "zlib \<Rightarrow> string \<Rightarrow> string" where
  "compressString z text =
     (let compressed = toLowerCase z text;
          compressed = fold (\<lambda>(full, abbrev) t. replaceWord full abbrev t) abbreviations compressed;
          compressed = trim (collapseSpaces False 0 compressed)
      in if utf16Length compressed > compressionThreshold then
           (case deflateSync z (utf8 compressed) of
              Some deflated \<Rightarrow>
                if 5 * length deflated < 4 * utf16Length compressed
                then ''__ZLIB__'' @ toBase64 z deflated else compressed
            | None \<Rightarrow> compressed)
         else compressed)"

definition decompressString :: "zlib \<Rightarrow> string \<Rightarrow> string" where
  "decompressString z text =
     (let expand = fold (\<lambda>(abbrev, full) t. replaceWord abbrev full t) reverseAbbreviations in
      if take 8 text = ''__ZLIB__'' then
        (case inflateSync z (fromBase64 z (drop 8 text)) of
           None \<Rightarrow> text
         | Some inflated \<Rightarrow> expand (from_utf8 inflated))
      else expand text)"

definition compressKey :: "zlib \<Rightarrow> string \<Rightarrow> string" where
  "compressKey z k =
     (case map_of abbreviations k of
        Some abbrev \<Rightarrow> abbrev
      | None \<Rightarrow>
          (replaceSuffix ''_result'' ''_res'' \<circ> replaceSuffix ''_config'' ''_cfg''
           \<circ> replaceSuffix ''_info'' ''_inf'' \<circ> replaceSuffix ''_data'' ''_d''
           \<circ> replaceSuffix ''_value'' ''_v'' \<circ> replaceSuffix ''_type'' ''_t''
           \<circ> replaceSuffix ''_name'' ''_n'' \<circ> replaceSuffix ''_id'' ''_i''
           \<circ> replacePrefix ''has_'' ''h_'' \<circ> replacePrefix ''is_'' ''i_''
           \<circ> replacePrefix ''set_'' ''s_'' \<circ> replacePrefix ''get_'' ''g_''
           \<circ> toLowerCase z \<circ> camelToSnake) k)"

definition decompressKey :: "string \<Rightarrow> string" where
  "decompressKey k =
     (case map_of reverseAbbreviations k of
        Some full \<Rightarrow> full
      | None \<Rightarrow>
          (snakeToCamel
           \<circ> replaceSuffix ''_res'' ''_result'' \<circ> replaceSuffix ''_cfg'' ''_config''
           \<circ> replaceSuffix ''_inf'' ''_info'' \<circ> replaceSuffix ''_d'' ''_data''
           \<circ> replaceSuffix ''_v'' ''_value'' \<circ> replaceSuffix ''_t'' ''_type''
           \<circ> replaceSuffix ''_n'' ''_name'' \<circ> replaceSuffix ''_i'' ''_id''
           \<circ> replacePrefix ''h_'' ''has_'' \<circ> replacePrefix ''i_'' ''is_''
           \<circ> replacePrefix ''s_'' ''set_'' \<circ> replacePrefix ''g_'' ''get_'') k)"

text \<open>The decimal name of an array index, as \<open>Object.entries\<close> gives it.\<close>

function show_nat :: "nat \<Rightarrow> string" where
  "show_nat n =
     (if n < 10 then [char_of (48 + n)] else show_nat (n div 10) @ [char_of (48 + n mod 10)])"
  by pat_completeness auto
termination
  by (relation "measure id") auto

declare show_nat.simps [simp del]

text \<open>
  \<open>compress\<close> tests \<open>typeof data === 'object'\<close> before \<open>Array.isArray(data)\<close>, so
  \<open>null\<close>, objects and arrays all reach \<open>compressObject\<close>, which returns \<open>null\<close>
  as it is and rebuilds anything else from \<open>Object.entries\<close> as an object; the entries
  of an array are its indices with its items. \<open>decompress\<close> has the same order of tests,
  with \<open>null\<close> excluded from the second. \<open>compressPairs\<close> and \<open>compressItems\<close> are
  the loop of \<open>compressObject\<close> over the entries of an object and of an array.
\<close>

fun compress :: "zlib \<Rightarrow> jsval \<Rightarrow> jsval"
  and compressPairs :: "zlib \<Rightarrow> (string \<times> jsval) list \<Rightarrow> (string \<times> jsval) list \<Rightarrow> (string \<times> jsval) list"
  and compressItems :: "zlib \<Rightarrow> nat \<Rightarrow> jsval list \<Rightarrow> (string \<times> jsval) list \<Rightarrow> (string \<times> jsval) list"
where
  "compress z (JString s) = JString (compressString z s)"
| "compress z JNull = JNull"
| "compress z (JObject ps) = JObject (compressPairs z ps [])"
| "compress z (JArray xs) = JObject (compressItems z 0 xs [])"
| "compress z (JBool b) = JBool b"
| "compress z (JInt v) = JInt v"
| "compress z (JFloat w) = JFloat w"
| "compressPairs z [] compressed = compressed"
| "compressPairs z (p # ps) compressed =
     compressPairs z ps (putProperty compressed (compressKey z (fst p)) (compress z (snd p)))"
| "compressItems z i [] compressed = compressed"
| "compressItems z i (x # xs) compressed =
     compressItems z (i + 1) xs (putProperty compressed (compressKey z (show_nat i)) (compress z x))"

fun decompress :: "zlib \<Rightarrow> jsval \<Rightarrow> jsval"
  and decompressPairs :: "zlib \<Rightarrow> (string \<times> jsval) list \<Rightarrow> (string \<times> jsval) list \<Rightarrow> (string \<times> jsval) list"
  and decompressItems :: "zlib \<Rightarrow> nat \<Rightarrow> jsval list \<Rightarrow> (string \<times> jsval) list \<Rightarrow> (string \<times> jsval) list"
where
  "decompress z (JString s) = JString (decompressString z s)"
| "decompress z (JObject ps) = JObject (decompressPairs z ps [])"
| "decompress z (JArray xs) = JObject (decompressItems z 0 xs [])"
| "decompress z JNull = JNull"
| "decompress z (JBool b) = JBool b"
| "decompress z (JInt v) = JInt v"
| "decompress z (JFloat w) = JFloat w"
| "decompressPairs z [] decompressed = decompressed"
| "decompressPairs z (p # ps) decompressed =
     decompressPairs z ps
       (putProperty decompressed (decompressKey (fst p)) (decompress z (snd p)))"
| "decompressItems z i [] decompressed = decompressed"
| "decompressItems z i (x # xs) decompressed =
     decompressItems z (i + 1) xs
       (putProperty decompressed (decompressKey (show_nat i)) (decompress z x))"





text \<open>A word whose first character is a lower-case letter; a character that is no letter.\<close>

definition letter_first :: "string \<Rightarrow> bool" where
  "letter_first w = (case w of [] \<Rightarrow> False | c # _ \<Rightarrow> isLower c)"




section \<open>The eviction cache (CacheManager)\<close>

datatype Priority = LOW | NORMAL | HIGH | CRITICAL

record 'v CacheEntry =
  key :: string
  entry_value :: 'v
  timestamp :: nat
  ttl :: nat
  accessCount :: nat
  priority :: Priority

text \<open>
  \<open>CacheManager\<close> keeps its entries in an \<open>LRUCache\<close> of the package lru-cache,
  which is not part of the repository; the model follows the documented behaviour of
  that package for the options the constructor passes (\<open>max\<close>, \<open>ttl\<close>,
  \<open>updateAgeOnGet: true\<close>, \<open>allowStale: false\<close>, \<open>dispose\<close>). The cache holds
  its items from the most recently used to the least recently used; each item carries
  the time its time-to-live started and the time-to-live given to \<open>set\<close>. An item is
  stale once more than its time-to-live has passed since that start. \<open>dispose\<close> is
  called for every item that leaves the cache: the least recently used item evicted by a
  \<open>set\<close> on a full cache, the old item when \<open>set\<close> overwrites a key, the item
  removed by \<open>delete\<close> or \<open>clear\<close>, and a stale item removed by \<open>get\<close>.
  Times are milliseconds of one clock, passed to each operation as \<open>now\<close>.
\<close>

record 'v item =
  entry :: "'v CacheEntry"
  start :: nat
  item_ttl :: nat

record 'v CacheManager =
  maxSize :: nat
  maxAge :: nat
  items :: "'v item list"
  hits :: nat
  misses :: nat
  sets :: nat
  evictions :: nat

definition new_cache :: "nat \<Rightarrow> nat \<Rightarrow> 'v CacheManager" where
  "new_cache maxSize' maxAge' =
     \<lparr>maxSize = maxSize', maxAge = maxAge', items = [], hits = 0, misses = 0, sets = 0,
      evictions = 0\<rparr>"

text \<open>The \<open>dispose\<close> callback of the constructor: \<open>this.stats.evictions++\<close>.\<close>

definition dispose :: "'v CacheManager \<Rightarrow> 'v CacheManager" where
  "dispose cm = cm\<lparr>evictions := evictions cm + 1\<rparr>"

definition item_key :: "'v item \<Rightarrow> string" where
  "item_key it = key (entry it)"

definition isStale :: "nat \<Rightarrow> 'v item \<Rightarrow> bool" where
  "isStale now it = (item_ttl it \<noteq> 0 \<and> item_ttl it < now - start it)"

definition lru_find :: "string \<Rightarrow> 'v CacheManager \<Rightarrow> 'v item option" where
  "lru_find k cm = find (\<lambda>it. item_key it = k) (items cm)"

definition lru_remove :: "string \<Rightarrow> 'v CacheManager \<Rightarrow> 'v CacheManager" where
  "lru_remove k cm = cm\<lparr>items := filter (\<lambda>it. item_key it \<noteq> k) (items cm)\<rparr>"

definition lru_set :: "nat \<Rightarrow> string \<Rightarrow> 'v CacheEntry \<Rightarrow> nat \<Rightarrow> 'v CacheManager \<Rightarrow> 'v CacheManager" where
  "lru_set now k e t cm =
     (let it = \<lparr>entry = e, start = (if t \<noteq> 0 then now else 0), item_ttl = t\<rparr> in
      case lru_find k cm of
        Some old \<Rightarrow>
          (let cm' = dispose (lru_remove k cm) in cm'\<lparr>items := it # items cm'\<rparr>)
      | None \<Rightarrow>
          if items cm \<noteq> [] \<and> length (items cm) = maxSize cm then
            (let cm' = dispose (cm\<lparr>items := butlast (items cm)\<rparr>)
             in cm'\<lparr>items := it # items cm'\<rparr>)
          else cm\<lparr>items := it # items cm\<rparr>)"

definition lru_get :: "nat \<Rightarrow> string \<Rightarrow> 'v CacheManager \<Rightarrow> 'v CacheEntry option \<times> 'v CacheManager" where
  "lru_get now k cm =
     (case lru_find k cm of
        None \<Rightarrow> (None, cm)
      | Some it \<Rightarrow>
          if isStale now it then (None, dispose (lru_remove k cm))
          else
            (Some (entry it),
             cm\<lparr>items := it\<lparr>start := (if item_ttl it \<noteq> 0 then now else 0)\<rparr>
                          # items (lru_remove k cm)\<rparr>))"

definition lru_has :: "nat \<Rightarrow> string \<Rightarrow> 'v CacheManager \<Rightarrow> bool" where
  "lru_has now k cm = (case lru_find k cm of None \<Rightarrow> False | Some it \<Rightarrow> \<not> isStale now it)"

definition lru_delete :: "string \<Rightarrow> 'v CacheManager \<Rightarrow> bool \<times> 'v CacheManager" where
  "lru_delete k cm =
     (case lru_find k cm of
        None \<Rightarrow> (False, cm)
      | Some it \<Rightarrow> (True, dispose (lru_remove k cm)))"

definition lru_clear :: "'v CacheManager \<Rightarrow> 'v CacheManager" where
  "lru_clear cm = (fold (\<lambda>it c. dispose c) (items cm) cm)\<lparr>items := []\<rparr>"

text \<open>\<open>entries()\<close> of the cache: the items that are not stale, most recently used first.\<close>

definition lru_entries :: "nat \<Rightarrow> 'v CacheManager \<Rightarrow> 'v CacheEntry list" where
  "lru_entries now cm = map entry (filter (\<lambda>it. \<not> isStale now it) (items cm))"

subsection \<open>The operations of CacheManager\<close>

text \<open>
  \<open>set(key, value, ttl?, priority = NORMAL)\<close>; an absent \<open>ttl\<close> is \<open>None\<close>, and
  \<open>ttl || 300000\<close> also replaces a \<open>ttl\<close> of 0.
\<close>

definition cache_set ::
  "nat \<Rightarrow> string \<Rightarrow> 'v \<Rightarrow> nat option \<Rightarrow> Priority \<Rightarrow> 'v CacheManager \<Rightarrow> 'v CacheManager" where
  "cache_set now k v ttl' priority' cm =
     (let e = \<lparr>key = k, entry_value = v, timestamp = now,
                ttl = (case ttl' of None \<Rightarrow> 300000 | Some t \<Rightarrow> if t = 0 then 300000 else t),
                accessCount = 0, priority = priority'\<rparr>;
          cm' = lru_set now k e (ttl e) cm
      in cm'\<lparr>sets := sets cm' + 1\<rparr>)"

text \<open>
  \<open>get(key)\<close>: \<open>entry.accessCount++\<close> changes the entry object that the cache
  holds, which \<open>lru_get\<close> has just moved to the front.
\<close>

definition cache_get :: "nat \<Rightarrow> string \<Rightarrow> 'v CacheManager \<Rightarrow> 'v option \<times> 'v CacheManager" where
  "cache_get now k cm =
     (case lru_get now k cm of
        (Some e, cm') \<Rightarrow>
          (Some (entry_value e),
           cm'\<lparr>items := (case items cm' of
                           [] \<Rightarrow> []
                         | it # rest \<Rightarrow>
                             it\<lparr>entry := (entry it)\<lparr>accessCount := accessCount (entry it) + 1\<rparr>\<rparr>
                               # rest),
                hits := hits cm' + 1\<rparr>)
      | (None, cm') \<Rightarrow> (None, cm'\<lparr>misses := misses cm' + 1\<rparr>))"

definition cache_has :: "nat \<Rightarrow> string \<Rightarrow> 'v CacheManager \<Rightarrow> bool" where
  "cache_has now k cm = lru_has now k cm"

definition cache_delete :: "string \<Rightarrow> 'v CacheManager \<Rightarrow> bool \<times> 'v CacheManager" where
  "cache_delete k cm = lru_delete k cm"

definition cache_clear :: "'v CacheManager \<Rightarrow> 'v CacheManager" where
  "cache_clear cm = lru_clear cm"

text \<open>
  \<open>optimize()\<close>: the candidates are filtered from \<open>entries()\<close>; \<open>age > ttl / 2\<close>
  is \<open>ttl < 2 * age\<close>. For each candidate key the loop body is
  \<open>this.cache.delete(key); this.stats.evictions++\<close>.
\<close>

definition optimize_candidate :: "nat \<Rightarrow> 'v CacheEntry \<Rightarrow> bool" where
  "optimize_candidate now e =
     (priority e = LOW \<and> accessCount e < 2 \<and> ttl e < 2 * (now - timestamp e))"

definition optimize_step :: "string \<Rightarrow> 'v CacheManager \<Rightarrow> 'v CacheManager" where
  "optimize_step k cm = (let cm' = snd (lru_delete k cm) in cm'\<lparr>evictions := evictions cm' + 1\<rparr>)"

definition optimize :: "nat \<Rightarrow> 'v CacheManager \<Rightarrow> 'v CacheManager" where
  "optimize now cm =
     (let candidates = map key (filter (optimize_candidate now) (lru_entries now cm))
      in fold optimize_step candidates cm)"

text \<open>
  The items that a call of \<open>optimize\<close> at time \<open>now\<close> removes, and the invariant of
  the cache that its keys are pairwise different.
\<close>

definition swept :: "nat \<Rightarrow> 'v item \<Rightarrow> bool" where
  "swept now it = (\<not> isStale now it \<and> optimize_candidate now (entry it))"

definition distinct_keys :: "'v CacheManager \<Rightarrow> bool" where
  "distinct_keys cm = distinct (map item_key (items cm))"

section \<open>The orchestrator (AIProcessingLayer)\<close>

datatype MessageType =
  INSTRUCTION | QUERY | RESPONSE | DATA_TRANSFER | SYSTEM_COMMAND | MEMORY_SYNC | A114_PROTOCOL

datatype EncodingType = JSON | BINARY | A114 | COMPRESSED_JSON

record AIMessage =
  msg_id :: string
  msg_timestamp :: nat
  senderId :: string
  receiverId :: string
  content :: jsval
  messageType :: MessageType
  msg_priority :: Priority
  compressed :: bool
  encoding :: EncodingType

text \<open>
  The field \<open>c\<close> of a compact message holds what \<open>optimizeMessage\<close> made of the
  content: the packet of the codec or the value returned by \<open>compress\<close>.
\<close>

datatype compact_content = Packet buffer | Transformed jsval

record CompactMessage =
  c_i :: string
  c_t :: nat
  c_s :: string
  c_r :: string
  c_c :: compact_content
  c_mt :: MessageType
  c_p :: Priority
  c_cp :: bool
  c_e :: EncodingType

text \<open>
  The private memory of an agent is a \<open>Map\<close>; its values are the records that
  \<open>routeMessage\<close> stores (content, sender, timestamp) and the learning strings.
\<close>

datatype memory_value = Delivered compact_content string nat | Learning string

record AIAgent =
  agent_id :: string
  agent_name :: string
  capabilities :: "string list"
  memoryContext :: "(string \<times> memory_value) list"
  lastActive :: nat

record Layer =
  agents :: "(string \<times> AIAgent) list"
  cache :: "CompactMessage CacheManager"

definition new_layer :: Layer where
  "new_layer = \<lparr>agents = [], cache = new_cache 1000 300000\<rparr>"

definition registerAgent :: "AIAgent \<Rightarrow> Layer \<Rightarrow> Layer" where
  "registerAgent agent st = st\<lparr>agents := mapSet (agents st) (agent_id agent) agent\<rparr>"

definition optimizeMessage :: "zlib \<Rightarrow> AIMessage \<Rightarrow> error + CompactMessage" where
  "optimizeMessage z message =
     (case (if encoding message = A114 then map_sum id Packet (encode (content message))
            else Inr (Transformed (compress z (content message)))) of
        Inl e \<Rightarrow> Inl e
      | Inr c \<Rightarrow>
          Inr \<lparr>c_i = msg_id message, c_t = msg_timestamp message, c_s = senderId message,
               c_r = receiverId message, c_c = c, c_mt = messageType message,
               c_p = msg_priority message, c_cp = True, c_e = encoding message\<rparr>)"

text \<open>
  Every function of the pipeline that changes the registry or the cache returns the new
  state next to its result, also when it raises. One \<open>now\<close> stands for the clock
  readings of a call.
\<close>

definition routeMessage :: "nat \<Rightarrow> CompactMessage \<Rightarrow> Layer \<Rightarrow> (error + string) \<times> Layer" where
  "routeMessage now message st =
     (case map_of (agents st) (c_r message) of
        None \<Rightarrow> (Inl ReceiverNotFound, st)
      | Some receiver \<Rightarrow>
          (let cache' = cache_set now (''msg_'' @ c_i message) message (Some 300000)
                 (c_p message) (cache st);
               receiver' = receiver
                 \<lparr>memoryContext := mapSet (memoryContext receiver) (''msg_'' @ c_i message)
                     (Delivered (c_c message) (c_s message) (c_t message)),
                  lastActive := now\<rparr>
           in (Inr (c_i message),
               st\<lparr>cache := cache', agents := mapSet (agents st) (c_r message) receiver'\<rparr>)))"

definition testMessageDelivery :: "nat \<Rightarrow> CompactMessage \<Rightarrow> Layer \<Rightarrow> bool list" where
  "testMessageDelivery now message st =
     (let messageExists =
            (case map_of (agents st) (c_r message) of
               None \<Rightarrow> False
             | Some receiver \<Rightarrow> map_of (memoryContext receiver) (''msg_'' @ c_i message) \<noteq> None);
          cacheExists = cache_has now (''msg_'' @ c_i message) (cache st)
      in [messageExists, cacheExists, True])"

definition generateFeedback :: "bool list \<Rightarrow> string" where
  "generateFeedback testResults =
     (let successCount = length (filter id testResults); totalTests = length testResults in
      if successCount = totalTests then ''All delivery tests passed successfully''
      else show_nat successCount @ ''/'' @ show_nat totalTests
             @ '' tests passed. Issues detected.'')"

definition correctMessageDelivery :: "nat \<Rightarrow> CompactMessage \<Rightarrow> Layer \<Rightarrow> (error + string) \<times> Layer" where
  "correctMessageDelivery now message st =
     (case routeMessage now message st of
        (Inl e, st') \<Rightarrow> (Inl e, st')
      | (Inr r, st') \<Rightarrow> (Inr ''Message delivery corrected through retry mechanism'', st'))"

definition validateDelivery :: "nat \<Rightarrow> CompactMessage \<Rightarrow> Layer \<Rightarrow> bool" where
  "validateDelivery now message st = list_all id (testMessageDelivery now message st)"

definition extractLearnings :: "string \<Rightarrow> string" where
  "extractLearnings feedback =
     ''Learned: Message optimization strategy successful. Feedback: '' @ feedback"

definition updateAgentMemory :: "nat \<Rightarrow> string \<Rightarrow> string \<Rightarrow> Layer \<Rightarrow> Layer" where
  "updateAgentMemory now agentId learning st =
     (case map_of (agents st) agentId of
        None \<Rightarrow> st
      | Some agent \<Rightarrow>
          st\<lparr>agents := mapSet (agents st) agentId
                (agent\<lparr>memoryContext := mapSet (memoryContext agent)
                          (''learning_'' @ show_nat now) (Learning learning)\<rparr>)\<rparr>)"

text \<open>
  The body of the \<open>try\<close> block of \<open>sendMessage\<close>: the result is the boolean it
  returns or the exception it raises. \<open>sendMessage\<close> is the whole function: its
  \<open>catch\<close> turns an exception into the result \<open>false\<close>.
\<close>

definition sendMessage_try :: "zlib \<Rightarrow> nat \<Rightarrow> AIMessage \<Rightarrow> Layer \<Rightarrow> (error + bool) \<times> Layer" where
  "sendMessage_try z now message st =
     (if map_of (agents st) (senderId message) = None
         \<or> map_of (agents st) (receiverId message) = None
      then (Inl AgentNotRegistered, st)
      else
        case optimizeMessage z message of
          Inl e \<Rightarrow> (Inl e, st)
        | Inr optimizedMessage \<Rightarrow>
            (case routeMessage now optimizedMessage st of
               (Inl e, st1) \<Rightarrow> (Inl e, st1)
             | (Inr reaction, st1) \<Rightarrow>
                 (let testResults = testMessageDelivery now optimizedMessage st1;
                      feedback = generateFeedback testResults
                  in case (if \<not> list_all id testResults
                           then correctMessageDelivery now optimizedMessage st1
                           else (Inr [], st1)) of
                       (Inl e, st2) \<Rightarrow> (Inl e, st2)
                     | (Inr correction, st2) \<Rightarrow>
                         (let validation = validateDelivery now optimizedMessage st2;
                              learning = extractLearnings feedback;
                              st3 = updateAgentMemory now (senderId message) learning st2
                          in (Inr validation, st3)))))"

definition sendMessage :: "zlib \<Rightarrow> nat \<Rightarrow> AIMessage \<Rightarrow> Layer \<Rightarrow> (error + bool) \<times> Layer" where
  "sendMessage z now message st =
     (case sendMessage_try z now message st of
        (Inl e, st') \<Rightarrow> (Inr False, st')
      | (Inr b, st') \<Rightarrow> (Inr b, st'))"

section \<open>Properties of the wire codec\<close>

subsection \<open>Bytes and big-endian numbers\<close>

lemma unat_byte_of: "unat (byte_of n) = n mod 256"
  by (simp add: byte_of_def unat_of_nat)

lemma uint_be_single: "uint_be [b] = unat b"
  by (simp add: uint_be_def)

lemma uint_be_snoc: "uint_be (bs @ [b]) = uint_be bs * 256 + unat b"
  by (simp add: uint_be_def)

lemma uint_be_be_bytes: "uint_be (be_bytes k n) = n mod 256 ^ k"
proof (induction k arbitrary: n)
  case 0
  show ?case by (simp add: uint_be_def)
next
  case (Suc k)
  have "n mod (256 * 256 ^ k) = n div 256 mod 256 ^ k * 256 + n mod 256"
    by (simp add: mod_mult2_eq)
  then show ?case
    by (simp add: uint_be_snoc Suc.IH unat_byte_of)
qed

lemma be16_be_bytes: "be16 n = be_bytes (Suc (Suc 0)) n"
  by (simp add: be16_def)

lemma be32_be_bytes: "be32 n = be_bytes (Suc (Suc (Suc (Suc 0)))) n"
  by (simp add: be32_def div_mult2_eq [symmetric])

lemma be64_be_bytes:
  "be64 w = be_bytes (Suc (Suc (Suc (Suc (Suc (Suc (Suc (Suc 0)))))))) (unat w)"
  by (simp add: be64_def Let_def div_mult2_eq [symmetric])

lemma uint_be_be16: "n < 65536 \<Longrightarrow> uint_be (be16 n) = n"
proof -
  assume "n < 65536"
  then have "n mod 256 ^ Suc (Suc 0) = n" by simp
  then show ?thesis by (simp only: be16_be_bytes uint_be_be_bytes)
qed

lemma uint_be_be32: "n < 4294967296 \<Longrightarrow> uint_be (be32 n) = n"
proof -
  assume "n < 4294967296"
  then have "n mod 256 ^ Suc (Suc (Suc (Suc 0))) = n" by simp
  then show ?thesis by (simp only: be32_be_bytes uint_be_be_bytes)
qed

lemma uint_be_be64: "uint_be (be64 w) = unat w"
proof -
  have "unat w < 2 ^ 64" using unsigned_less [of w] by simp
  then have "unat w mod 256 ^ (Suc (Suc (Suc (Suc (Suc (Suc (Suc (Suc 0)))))))) = unat w"
    by simp
  then show ?thesis by (simp only: be64_be_bytes uint_be_be_bytes)
qed

lemma length_be16: "length (be16 n) = 2"
  by (simp add: be16_def)

lemma length_be32: "length (be32 n) = 4"
  by (simp add: be32_def)

lemma length_be64: "length (be64 w) = 8"
  by (simp add: be64_def Let_def)

lemma int_mod_neg: "- m \<le> v \<Longrightarrow> v < 0 \<Longrightarrow> v mod m = v + (m::int)"
proof -
  assume h: "- m \<le> v" "v < 0"
  have "v mod m = (v + m) mod m" by simp
  also have "\<dots> = v + m" using h by (intro mod_pos_pos_trivial) auto
  finally show ?thesis .
qed

lemma signed8:
  "- 128 \<le> v \<Longrightarrow> v \<le> 127 \<Longrightarrow> to_signed 8 (uint_be [byte_of (nat (v mod 256))]) = v"
  by (cases "v < 0") (simp_all add: uint_be_single to_signed_def unat_byte_of int_mod_neg)

lemma signed16:
  "- 32768 \<le> v \<Longrightarrow> v \<le> 32767 \<Longrightarrow> to_signed 16 (uint_be (be16 (nat (v mod 65536)))) = v"
  by (cases "v < 0") (simp_all add: uint_be_be16 to_signed_def int_mod_neg)

lemma signed32:
  "- 2147483648 \<le> v \<Longrightarrow> v \<le> 2147483647
    \<Longrightarrow> to_signed 32 (uint_be (be32 (nat (v mod 4294967296)))) = v"
  by (cases "v < 0") (simp_all add: uint_be_be32 to_signed_def int_mod_neg)

lemma chars_of_bytes: "map (\<lambda>b. char_of (unat b)) (map (\<lambda>c. byte_of (of_char c)) s) = s"
  by (induction s) (simp_all add: unat_byte_of)

lemma length_replaceSurrogates: "length (replaceSurrogates k s) = length s - k"
proof (induction k s rule: replaceSurrogates.induct)
  case (3 c cs)
  show ?case
  proof (cases "(of_char c :: nat) = 0xED \<and> surrogateTail cs")
    case True
    then obtain b c' cs' where "cs = b # c' # cs'"
      by (auto simp: surrogateTail_def split: list.splits)
    with True 3 show ?thesis by (simp add: REPLACEMENT_def)
  next
    case False
    with 3 show ?thesis by auto
  qed
qed simp_all

lemma replaceSurrogates_wellFormed:
  "wellFormed needed lower upper s \<Longrightarrow> (needed \<noteq> 0 \<Longrightarrow> upper \<le> 0xBF)
     \<Longrightarrow> replaceSurrogates 0 s = s"
proof (induction s arbitrary: needed lower upper)
  case Nil
  show ?case by simp
next
  case (Cons c cs)
  show ?case
  proof (cases "needed = 0")
    case True
    show ?thesis
    proof (cases "startByte (of_char c)")
      case Single
      with Cons.prems(1) True have w: "wellFormed 0 0x80 0xBF cs" by simp
      from Single have "(of_char c :: nat) \<noteq> 0xED"
        by (auto simp: startByte_def split: if_splits)
      with Cons.IH [OF w] show ?thesis by simp
    next
      case (Lead n lo hi)
      with Cons.prems(1) True have w: "wellFormed n lo hi cs" by simp
      from Lead have n: "n \<noteq> 0" and hi: "hi \<le> 0xBF"
        and ed: "(of_char c :: nat) = 0xED \<Longrightarrow> hi = 0x9F"
        by (auto simp: startByte_def split: if_splits)
      have "\<not> ((of_char c :: nat) = 0xED \<and> surrogateTail cs)"
      proof
        assume a: "(of_char c :: nat) = 0xED \<and> surrogateTail cs"
        then obtain b cs' where "cs = b # cs'" "0xA0 \<le> (of_char b :: nat)"
          by (auto simp: surrogateTail_def split: list.splits)
        with w n ed a show False by simp
      qed
      moreover have "replaceSurrogates 0 cs = cs" by (rule Cons.IH [OF w]) (rule hi)
      ultimately show ?thesis by auto
    next
      case Illegal
      with Cons.prems(1) True show ?thesis by simp
    qed
  next
    case False
    with Cons.prems(1) have w: "wellFormed (needed - 1) 0x80 0xBF cs"
      and r: "(of_char c :: nat) \<le> upper"
      by simp_all
    from r Cons.prems(2) [OF False] have "(of_char c :: nat) \<noteq> 0xED" by simp
    moreover have "replaceSurrogates 0 cs = cs" by (rule Cons.IH [OF w]) simp
    ultimately show ?thesis by simp
  qed
qed

lemma utf8_valid: "valid_utf8 s \<Longrightarrow> utf8 s = map (\<lambda>c. byte_of (of_char c)) s"
  by (simp add: utf8_def valid_utf8_def replaceSurrogates_wellFormed [of 0])

lemma startByte_Lead: "startByte b = Lead n lo hi \<Longrightarrow> n \<noteq> 0"
  by (auto simp: startByte_def split: if_splits)

lemma utf8Decode_wellFormed:
  "wellFormed needed lower upper s \<Longrightarrow> (needed = 0 \<Longrightarrow> seen = []) \<Longrightarrow>
     utf8Decode needed lower upper seen s = seen @ s"
proof (induction s arbitrary: needed lower upper seen)
  case Nil
  then show ?case by simp
next
  case (Cons c cs)
  show ?case
  proof (cases "needed = 0")
    case True
    then have s: "seen = []" by (rule Cons.prems(2))
    show ?thesis
    proof (cases "startByte (of_char c)")
      case Single
      with Cons.prems(1) True have "wellFormed 0 0x80 0xBF cs" by simp
      then have "utf8Decode 0 0x80 0xBF [] cs = [] @ cs" by (rule Cons.IH) simp
      then show ?thesis using True s Single by simp
    next
      case (Lead n lo hi)
      with Cons.prems(1) True have "wellFormed n lo hi cs" by simp
      then have "utf8Decode n lo hi [c] cs = [c] @ cs"
        by (rule Cons.IH) (use startByte_Lead [OF Lead] in simp)
      then show ?thesis using True s Lead by simp
    next
      case Illegal
      with Cons.prems(1) True show ?thesis by simp
    qed
  next
    case False
    with Cons.prems(1) have w: "wellFormed (needed - 1) 0x80 0xBF cs"
      and r: "lower \<le> (of_char c :: nat)" "(of_char c :: nat) \<le> upper"
      by simp_all
    show ?thesis
    proof (cases "needed = 1")
      case True
      with w have "wellFormed 0 0x80 0xBF cs" by simp
      then have "utf8Decode 0 0x80 0xBF [] cs = [] @ cs" by (rule Cons.IH) simp
      then show ?thesis using True r by simp
    next
      case n1: False
      have "utf8Decode (needed - 1) 0x80 0xBF (seen @ [c]) cs = (seen @ [c]) @ cs"
        by (rule Cons.IH [OF w]) (use False n1 in simp)
      then show ?thesis using False n1 r by simp
    qed
  qed
qed

lemma from_utf8_utf8:
  assumes "valid_utf8 s"
  shows "from_utf8 (utf8 s) = s"
proof -
  have "from_utf8 (utf8 s) = utf8Decode 0 0x80 0xBF [] s"
    by (simp only: from_utf8_def utf8_valid [OF assms] chars_of_bytes)
  also have "\<dots> = [] @ s"
    by (rule utf8Decode_wellFormed) (use assms in \<open>simp_all add: valid_utf8_def\<close>)
  finally show ?thesis by simp
qed

lemma length_utf8: "length (utf8 s) = length s"
  by (simp add: utf8_def length_replaceSurrogates)

subsection \<open>The integer branches of encodeValue\<close>

lemma encodeValue_int8:
  "- 128 \<le> v \<Longrightarrow> v \<le> 127 \<Longrightarrow>
     encodeValue (JInt v) = Inr [byte_of T_INT8, byte_of (nat (v mod 256))]"
  by (simp add: tagged_def writeInt8_def)

lemma encodeValue_int16:
  "- 32768 \<le> v \<Longrightarrow> v \<le> 32767 \<Longrightarrow> v < - 128 \<or> 127 < v \<Longrightarrow>
     encodeValue (JInt v) = Inr (byte_of T_INT16 # be16 (nat (v mod 65536)))"
  by (auto simp add: tagged_def writeInt16BE_def)

lemma encodeValue_int32:
  "- 2147483648 \<le> v \<Longrightarrow> v \<le> 2147483647 \<Longrightarrow> v < - 32768 \<or> 32767 < v \<Longrightarrow>
     encodeValue (JInt v) = Inr (byte_of T_INT32 # be32 (nat (v mod 4294967296)))"
  by (auto simp add: tagged_def writeInt32BE_def)

lemma encodeValue_int_out_of_range:
  "v < - 2147483648 \<or> 2147483647 < v \<Longrightarrow> encodeValue (JInt v) = Inl OutOfRange"
  by (auto simp add: tagged_def writeInt32BE_def)



text \<open>
  C10 (integers outside the signed 32-bit range). \<open>encode\<close> of an integral number
  below -2147483648 or above 2147483647 raises the range error of \<open>writeInt32BE\<close> and
  produces no packet; \<open>encode\<close> of an integral number inside the range produces one.
\<close>

theorem encode_integer_total_only_on_int32:
  "(v < - 2147483648 \<or> 2147483647 < v \<longrightarrow> encode (JInt v) = Inl OutOfRange)
   \<and> (- 2147483648 \<le> u \<and> u \<le> 2147483647 \<longrightarrow> (\<exists>packet. encode (JInt u) = Inr packet))"
proof (intro conjI impI)
  assume "v < - 2147483648 \<or> 2147483647 < v"
  then show "encode (JInt v) = Inl OutOfRange"
    by (simp add: encode_def encodePayload_def encodeValue_int_out_of_range
        del: encodeValue.simps)
next
  assume "- 2147483648 \<le> u \<and> u \<le> 2147483647"
  then show "\<exists>packet. encode (JInt u) = Inr packet"
    by (simp add: encode_def encodePayload_def createHeader_def tagged_def writeInt8_def
        writeInt16BE_def writeInt32BE_def writeUInt32BE_def length_be16 length_be32)
qed

theorem encode_integer_total_only_on_int32_witness:
  "encode (JInt 2147483648) = Inl OutOfRange
   \<and> (\<exists>packet. encode (JInt (- 2147483648)) = Inr packet)"
  using encode_integer_total_only_on_int32 [of 2147483648 "- 2147483648"]
  by simp

subsection \<open>The header checks of decode\<close>

lemma readUInt8_nth:
  "readUInt8 buf off = (if off < length buf then Inr (unat (buf ! off)) else Inl OutOfRange)"
proof (cases "off < length buf")
  case True
  then have "take 1 (drop off buf) = [buf ! off]"
    by (simp add: take_Suc_conv_app_nth)
  with True show ?thesis
    by (simp add: readUInt8_def bytes_at_def uint_be_single)
next
  case False
  then show ?thesis by (simp add: readUInt8_def bytes_at_def)
qed

lemma parseHeader_take:
  assumes "8 \<le> length b"
  shows "parseHeader (subarray b 0 HEADER_SIZE) =
     (if unat (b ! 0) \<noteq> 0xA1 \<or> unat (b ! 1) \<noteq> 0x14 then Inl WrongMagic
      else if unat (b ! 2) \<noteq> 1 then Inl (UnsupportedVersion (unat (b ! 2)))
      else Inr (1, unat (b ! 3), uint_be (take 4 (drop 4 b))))"
proof -
  have r: "readUInt8 (take 8 b) 0 = Inr (unat (b ! 0))"
    "readUInt8 (take 8 b) (Suc 0) = Inr (unat (b ! 1))"
    "readUInt8 (take 8 b) 2 = Inr (unat (b ! 2))"
    "readUInt8 (take 8 b) 3 = Inr (unat (b ! 3))"
    using assms by (simp_all add: readUInt8_nth)
  have rd: "readUInt32BE (take 8 b) 4 = Inr (uint_be (take 4 (drop 4 b)))"
    using assms by (simp add: readUInt32BE_def bytes_at_def drop_take)
  have "subarray b 0 HEADER_SIZE = take 8 b"
    by (simp add: subarray_def HEADER_SIZE_def)
  then show ?thesis
    by (simp add: parseHeader_def VERSION_def r rd)
qed

lemma decode_unfold:
  "\<not> length b < 8 \<Longrightarrow> decode toStr b =
     (case parseHeader (subarray b 0 HEADER_SIZE) of
        Inl e \<Rightarrow> Inl e
      | Inr h \<Rightarrow>
          if length b - 8 \<noteq> snd (snd h) then Inl LengthMismatch
          else decodePayload toStr (drop 8 b))"
  by (simp add: decode_def HEADER_SIZE_def Let_def split: sum.split prod.split)

lemma decode_checks:
  "decode toStr b =
     (if length b < 8 then Inl TooShort
      else if unat (b ! 0) \<noteq> 0xA1 \<or> unat (b ! 1) \<noteq> 0x14 then Inl WrongMagic
      else if unat (b ! 2) \<noteq> 1 then Inl (UnsupportedVersion (unat (b ! 2)))
      else if length b - 8 \<noteq> uint_be (take 4 (drop 4 b)) then Inl LengthMismatch
      else decodePayload toStr (drop 8 b))"
proof (cases "length b < 8")
  case True
  then show ?thesis by (simp add: decode_def HEADER_SIZE_def)
next
  case False
  then have "8 \<le> length b" by simp
  note ph = parseHeader_take [OF this]
  show ?thesis
    using False by (simp add: decode_unfold [OF False] ph)
qed

text \<open>
  C3 (header validation). \<open>decode\<close> makes its four checks in this order, and each
  failure is a FORMAT_ERROR returned instead of a value: the buffer is shorter than the
  8-byte header; the two magic bytes are not 0xA1 0x14; the version byte is not 1; the
  big-endian length in bytes 4 to 7 differs from the number of bytes after the header.
  Only a buffer that passes all four reaches \<open>decodePayload\<close>.
\<close>

theorem decode_header_validation:
  "decode toStr b =
     (if length b < 8 then Inl TooShort
      else if unat (b ! 0) \<noteq> 0xA1 \<or> unat (b ! 1) \<noteq> 0x14 then Inl WrongMagic
      else if unat (b ! 2) \<noteq> 1 then Inl (UnsupportedVersion (unat (b ! 2)))
      else if length b - 8 \<noteq> uint_be (take 4 (drop 4 b)) then Inl LengthMismatch
      else decodePayload toStr (drop 8 b))
   \<and> FORMAT_ERROR TooShort \<and> FORMAT_ERROR WrongMagic
   \<and> FORMAT_ERROR (UnsupportedVersion (unat (b ! 2))) \<and> FORMAT_ERROR LengthMismatch"
proof (intro conjI)
  show "decode toStr b =
     (if length b < 8 then Inl TooShort
      else if unat (b ! 0) \<noteq> 0xA1 \<or> unat (b ! 1) \<noteq> 0x14 then Inl WrongMagic
      else if unat (b ! 2) \<noteq> 1 then Inl (UnsupportedVersion (unat (b ! 2)))
      else if length b - 8 \<noteq> uint_be (take 4 (drop 4 b)) then Inl LengthMismatch
      else decodePayload toStr (drop 8 b))"
    by (rule decode_checks)
qed (simp_all add: FORMAT_ERROR_def)

theorem decode_header_validation_witness:
  "decode (\<lambda>_. []) [0xA1, 0x14, 1, 0, 0, 0, 0] = Inl TooShort
   \<and> decode (\<lambda>_. []) [0xA1, 0x15, 1, 0, 0, 0, 0, 1, 0] = Inl WrongMagic
   \<and> decode (\<lambda>_. []) [0xA1, 0x14, 2, 0, 0, 0, 0, 1, 0] = Inl (UnsupportedVersion 2)
   \<and> decode (\<lambda>_. []) [0xA1, 0x14, 1, 0, 0, 0, 0, 2, 0] = Inl LengthMismatch
   \<and> decode (\<lambda>_. []) [0xA1, 0x14, 1, 0, 0, 0, 0, 1, 0] = Inr JNull"
  using decode_header_validation [of "\<lambda>_. []" "[0xA1, 0x14, 1, 0, 0, 0, 0]"]
    decode_header_validation [of "\<lambda>_. []" "[0xA1, 0x15, 1, 0, 0, 0, 0, 1, 0]"]
    decode_header_validation [of "\<lambda>_. []" "[0xA1, 0x14, 2, 0, 0, 0, 0, 1, 0]"]
    decode_header_validation [of "\<lambda>_. []" "[0xA1, 0x14, 1, 0, 0, 0, 0, 2, 0]"]
    decode_header_validation [of "\<lambda>_. []" "[0xA1, 0x14, 1, 0, 0, 0, 0, 1, 0]"]
  by (simp add: uint_be_def decodePayload_def readUInt8_nth decodeScalar_def tag_defs)

subsection \<open>Reading back what was written\<close>

lemma drop_cons_read: "drop off buf = t # rest \<Longrightarrow> readUInt8 buf off = Inr (unat t)"
proof -
  assume h: "drop off buf = t # rest"
  then have "off < length buf" by (cases "off < length buf") auto
  moreover have "buf ! off = t" using h by (rule nth_via_drop)
  ultimately show ?thesis by (simp add: readUInt8_nth)
qed

lemma drop_Suc_eq: "drop off buf = t # rest \<Longrightarrow> drop (Suc off) buf = rest"
  by (simp add: drop_Suc tl_drop [symmetric])

lemma drop_add_eq: "drop off buf = a @ rest \<Longrightarrow> drop (off + length a) buf = rest"
proof -
  assume h: "drop off buf = a @ rest"
  have "drop (off + length a) buf = drop (length a) (drop off buf)"
    by (simp add: add.commute)
  then show ?thesis by (simp add: h)
qed

lemma bytes_at_drop:
  "drop off buf = bs @ rest \<Longrightarrow> bs \<noteq> [] \<Longrightarrow> bytes_at buf off (length bs) = Inr bs"
proof -
  assume h: "drop off buf = bs @ rest" and ne: "bs \<noteq> []"
  have "length (drop off buf) = length bs + length rest" by (simp add: h)
  moreover have "0 < length bs" using ne by simp
  ultimately have "off + length bs \<le> length buf" unfolding length_drop by arith
  then show ?thesis by (simp add: bytes_at_def h)
qed

lemma read_u32_drop:
  assumes "drop off buf = be32 n @ rest" "n < 4294967296"
  shows "readUInt32BE buf off = Inr n"
proof -
  have "bytes_at buf off (length (be32 n)) = Inr (be32 n)"
    by (rule bytes_at_drop [OF assms(1)]) (simp add: be32_def)
  then show ?thesis
    by (simp add: readUInt32BE_def length_be32 uint_be_be32 [OF assms(2)])
qed

lemma read_i8_drop:
  assumes "drop off buf = byte_of (nat (v mod 256)) # rest" "- 128 \<le> v" "v \<le> 127"
  shows "readInt8 buf off = Inr v"
proof -
  have "bytes_at buf off (length [byte_of (nat (v mod 256))]) = Inr [byte_of (nat (v mod 256))]"
    by (rule bytes_at_drop [where rest = rest]) (simp_all add: assms(1))
  then show ?thesis
    by (simp add: readInt8_def signed8 [OF assms(2,3)])
qed

lemma read_i16_drop:
  assumes "drop off buf = be16 (nat (v mod 65536)) @ rest" "- 32768 \<le> v" "v \<le> 32767"
  shows "readInt16BE buf off = Inr v"
proof -
  have "bytes_at buf off (length (be16 (nat (v mod 65536)))) = Inr (be16 (nat (v mod 65536)))"
    by (rule bytes_at_drop [OF assms(1)]) (simp add: be16_def)
  then show ?thesis
    by (simp add: readInt16BE_def length_be16 signed16 [OF assms(2,3)])
qed

lemma read_i32_drop:
  assumes "drop off buf = be32 (nat (v mod 4294967296)) @ rest"
    "- 2147483648 \<le> v" "v \<le> 2147483647"
  shows "readInt32BE buf off = Inr v"
proof -
  have "bytes_at buf off (length (be32 (nat (v mod 4294967296))))
      = Inr (be32 (nat (v mod 4294967296)))"
    by (rule bytes_at_drop [OF assms(1)]) (simp add: be32_def)
  then show ?thesis
    by (simp add: readInt32BE_def length_be32 signed32 [OF assms(2,3)])
qed

lemma read_double_drop:
  assumes "drop off buf = be64 w @ rest"
  shows "readDoubleBE buf off = Inr w"
proof -
  have "bytes_at buf off (length (be64 w)) = Inr (be64 w)"
    by (rule bytes_at_drop [OF assms(1)]) (simp add: be64_def Let_def)
  then show ?thesis
    by (simp add: readDoubleBE_def length_be64 uint_be_be64)
qed

lemma unat_tags:
  "unat (byte_of T_NULL) = T_NULL" "unat (byte_of T_BOOL) = T_BOOL"
  "unat (byte_of T_INT8) = T_INT8" "unat (byte_of T_INT16) = T_INT16"
  "unat (byte_of T_INT32) = T_INT32" "unat (byte_of T_FLOAT64) = T_FLOAT64"
  "unat (byte_of T_STRING) = T_STRING" "unat (byte_of T_ARRAY) = T_ARRAY"
  "unat (byte_of T_OBJECT) = T_OBJECT"
  by (simp_all add: unat_byte_of tag_defs)

lemma decode_null:
  assumes "drop off buf = byte_of T_NULL # rest"
  shows "decodeValue toStr (Suc f) buf off = Inr (JNull, off + 1)"
  by (simp add: drop_cons_read [OF assms] unat_tags decodeScalar_def) (simp add: tag_defs)

lemma decode_bool:
  assumes "drop off buf = byte_of T_BOOL # (if b then 1 else 0) # rest"
  shows "decodeValue toStr (Suc f) buf off = Inr (JBool b, off + 2)"
proof -
  have "readUInt8 buf (Suc off) = Inr (if b then 1 else 0)"
    using drop_cons_read [OF drop_Suc_eq [OF assms]] by simp
  then show ?thesis
    by (simp add: drop_cons_read [OF assms] unat_tags decodeScalar_def) (simp add: tag_defs)
qed

lemma decode_int8:
  assumes "drop off buf = byte_of T_INT8 # byte_of (nat (v mod 256)) # rest"
    "- 128 \<le> v" "v \<le> 127"
  shows "decodeValue toStr (Suc f) buf off = Inr (JInt v, off + 2)"
proof -
  have "readInt8 buf (Suc off) = Inr v"
    by (rule read_i8_drop [OF drop_Suc_eq [OF assms(1)] assms(2,3)])
  then show ?thesis
    by (simp add: drop_cons_read [OF assms(1)] unat_tags decodeScalar_def) (simp add: tag_defs)
qed

lemma decode_int16:
  assumes "drop off buf = byte_of T_INT16 # be16 (nat (v mod 65536)) @ rest"
    "- 32768 \<le> v" "v \<le> 32767"
  shows "decodeValue toStr (Suc f) buf off = Inr (JInt v, off + 3)"
proof -
  have "readInt16BE buf (Suc off) = Inr v"
    by (rule read_i16_drop [OF drop_Suc_eq [OF assms(1)] assms(2,3)])
  then show ?thesis
    by (simp add: drop_cons_read [OF assms(1)] unat_tags decodeScalar_def) (simp add: tag_defs)
qed

lemma decode_int32:
  assumes "drop off buf = byte_of T_INT32 # be32 (nat (v mod 4294967296)) @ rest"
    "- 2147483648 \<le> v" "v \<le> 2147483647"
  shows "decodeValue toStr (Suc f) buf off = Inr (JInt v, off + 5)"
proof -
  have "readInt32BE buf (Suc off) = Inr v"
    by (rule read_i32_drop [OF drop_Suc_eq [OF assms(1)] assms(2,3)])
  then show ?thesis
    by (simp add: drop_cons_read [OF assms(1)] unat_tags decodeScalar_def) (simp add: tag_defs)
qed

lemma decode_float64:
  assumes "drop off buf = byte_of T_FLOAT64 # be64 w @ rest" "doubleToNumber w = JFloat w"
  shows "decodeValue toStr (Suc f) buf off = Inr (JFloat w, off + 9)"
proof -
  have "readDoubleBE buf (Suc off) = Inr w"
    by (rule read_double_drop [OF drop_Suc_eq [OF assms(1)]])
  then show ?thesis
    by (simp add: drop_cons_read [OF assms(1)] unat_tags decodeScalar_def assms(2))
      (simp add: tag_defs)
qed

lemma decode_string:
  assumes "drop off buf = byte_of T_STRING # be32 (length s) @ utf8 s @ rest"
    "length s < 4294967296" "valid_utf8 s"
  shows "decodeValue toStr (Suc f) buf off = Inr (JString s, off + 5 + length s)"
proof -
  have d1: "drop (Suc off) buf = be32 (length s) @ utf8 s @ rest"
    by (rule drop_Suc_eq [OF assms(1)])
  have r: "readUInt32BE buf (Suc off) = Inr (length s)"
    by (rule read_u32_drop [OF d1 assms(2)])
  have "drop (Suc off + length (be32 (length s))) buf = utf8 s @ rest"
    by (rule drop_add_eq [OF d1])
  then have d2: "drop (off + 1 + 4) buf = utf8 s @ rest"
    by (simp add: length_be32)
  have "subarray buf (off + 1 + 4) (off + 1 + 4 + length s) = utf8 s"
    by (simp only: subarray_def d2) (simp add: length_utf8)
  then show ?thesis
    using r
    by (simp add: drop_cons_read [OF assms(1)] unat_tags decodeScalar_def
        from_utf8_utf8 [OF assms(3)])
      (simp add: tag_defs)
qed

lemma decode_array:
  assumes "drop off buf = byte_of T_ARRAY # be32 n @ rest" "n < 4294967296"
    "decodeItems toStr f buf (off + 5) n [] = Inr (xs, off')"
  shows "decodeValue toStr (Suc f) buf off = Inr (JArray xs, off')"
proof -
  have r: "readUInt32BE buf (Suc off) = Inr n"
    by (rule read_u32_drop [OF drop_Suc_eq [OF assms(1)] assms(2)])
  have "off + 5 = Suc (off + 4)" by simp
  with assms(3) have "decodeItems toStr f buf (Suc (off + 4)) n [] = Inr (xs, off')" by simp
  then show ?thesis
    by (simp add: drop_cons_read [OF assms(1)] unat_tags r)
qed

lemma decode_object:
  assumes "drop off buf = byte_of T_OBJECT # be32 n @ rest" "n < 4294967296"
    "decodePairs toStr f buf (off + 5) n [] = Inr (ps, off')"
  shows "decodeValue toStr (Suc f) buf off = Inr (JObject ps, off')"
proof -
  have r: "readUInt32BE buf (Suc off) = Inr n"
    by (rule read_u32_drop [OF drop_Suc_eq [OF assms(1)] assms(2)])
  have "off + 5 = Suc (off + 4)" by simp
  with assms(3) have "decodePairs toStr f buf (Suc (off + 4)) n [] = Inr (ps, off')" by simp
  then show ?thesis
    by (simp add: drop_cons_read [OF assms(1)] unat_tags r) (simp add: tag_defs)
qed

subsection \<open>The shape of a successful encoding\<close>

lemma encodeString_Inr:
  "encodeString s = Inr p \<Longrightarrow>
     length s < 4294967296 \<and> p = byte_of T_STRING # be32 (length s) @ utf8 s"
  by (auto simp: encodeString_def tagged_def writeUInt32BE_def Let_def length_utf8
      split: if_splits)

lemma encodeValue_array_Inr:
  "encodeValue (JArray xs) = Inr p \<Longrightarrow>
     \<exists>q. length xs < 4294967296 \<and> encodeItems xs = Inr q
        \<and> p = byte_of T_ARRAY # be32 (length xs) @ q"
  by (auto simp: tagged_def writeUInt32BE_def split: if_splits sum.splits)

lemma encodeValue_object_Inr:
  "encodeValue (JObject ps) = Inr p \<Longrightarrow>
     \<exists>q. length ps < 4294967296 \<and> encodePairs ps = Inr q
        \<and> p = byte_of T_OBJECT # be32 (length ps) @ q"
  by (auto simp: tagged_def writeUInt32BE_def split: if_splits sum.splits)

lemma encodeItems_Cons_Inr:
  "encodeItems (x # xs) = Inr p \<Longrightarrow>
     \<exists>b q. encodeValue x = Inr b \<and> encodeItems xs = Inr q \<and> p = b @ q"
  by (auto split: sum.splits)

lemma encodePairs_Cons_Inr:
  "encodePairs (kv # ps) = Inr p \<Longrightarrow>
     \<exists>kb vb q. encodeString (fst kv) = Inr kb \<and> encodeValue (snd kv) = Inr vb
        \<and> encodePairs ps = Inr q \<and> p = kb @ vb @ q"
  by (auto split: sum.splits)

text \<open>
  A new property whose name comes last in the order of \<open>Object.keys\<close> is added
  last.
\<close>

lemma ownKeyOrder_prefix: "ownKeyOrder (xs @ ys) \<Longrightarrow> ownKeyOrder xs"
proof (induction xs rule: ownKeyOrder.induct)
  case (1 k1 k2 ks)
  then show ?case by simp
qed simp_all

lemma ownKeyOrder_below:
  "ownKeyOrder (ks @ [k]) \<Longrightarrow> arrayIndex k = Some n
     \<Longrightarrow> \<forall>x \<in> set ks. \<exists>m. arrayIndex x = Some m \<and> m < n"
proof (induction ks)
  case Nil
  then show ?case by simp
next
  case (Cons k1 ks)
  show ?case
  proof (cases ks)
    case Nil
    with Cons.prems show ?thesis by (auto split: option.splits)
  next
    case (Cons k2 ks')
    from Cons.prems(1) have o: "ownKeyOrder (ks @ [k])" by (simp add: Cons)
    from Cons.IH [OF o Cons.prems(2)]
    have below: "\<forall>x \<in> set ks. \<exists>m. arrayIndex x = Some m \<and> m < n" .
    then obtain b where b: "arrayIndex k2 = Some b" "b < n" by (auto simp: Cons)
    from Cons.prems(1) b(1) obtain a where "arrayIndex k1 = Some a" "a < b"
      by (auto simp: Cons split: option.splits)
    with b(2) below show ?thesis by auto
  qed
qed

lemma insertIndexed_last:
  "\<forall>x \<in> set (map fst obj). \<exists>m. arrayIndex x = Some m \<and> m < n
     \<Longrightarrow> insertIndexed obj n k v = obj @ [(k, v)]"
  by (induction obj) auto

lemma putProperty_new:
  assumes "k \<notin> fst ` set obj" "k \<noteq> ''__proto__''" "ownKeyOrder (map fst obj @ [k])"
  shows "putProperty obj k v = obj @ [(k, v)]"
proof (cases "arrayIndex k")
  case None
  with assms(1,2) show ?thesis by (simp add: putProperty_def)
next
  case (Some n)
  have "insertIndexed obj n k v = obj @ [(k, v)]"
    by (rule insertIndexed_last) (rule ownKeyOrder_below [OF assms(3) Some])
  with assms(1,2) Some show ?thesis by (simp add: putProperty_def)
qed

lemma nesting_pos: "0 < nesting v"
  by (cases v) simp_all

subsection \<open>decodeValue inverts encodeValue\<close>

lemma decode_encode_value:
  "encodeValue v = Inr p \<Longrightarrow> codec_domain v \<Longrightarrow> nesting v \<le> fuel
     \<Longrightarrow> drop off buf = p @ rest
     \<Longrightarrow> decodeValue toStr fuel buf off = Inr (v, off + length p)"
  and decode_encode_items:
  "encodeItems xs = Inr p \<Longrightarrow> domain_items xs \<Longrightarrow> nesting_items xs \<le> fuel
     \<Longrightarrow> drop off buf = p @ rest
     \<Longrightarrow> decodeItems toStr fuel buf off (length xs) acc = Inr (acc @ xs, off + length p)"
  and decode_encode_pairs:
  "encodePairs ps = Inr p \<Longrightarrow> domain_pairs ps \<Longrightarrow> distinct (map fst ps)
     \<Longrightarrow> fst ` set ps \<inter> fst ` set obj = {}
     \<Longrightarrow> ownKeyOrder (map fst obj @ map fst ps) \<Longrightarrow> nesting_pairs ps \<le> fuel
     \<Longrightarrow> drop off buf = p @ rest
     \<Longrightarrow> decodePairs toStr fuel buf off (length ps) obj = Inr (obj @ ps, off + length p)"
proof (induction v and xs and ps
    arbitrary: p fuel buf off rest and p fuel buf off rest acc and p fuel buf off rest obj
    rule: encodeValue_encodeItems_encodePairs.induct)
  case 1
  from "1.prems"(3) obtain f where f: "fuel = Suc f" by (cases fuel) auto
  from "1.prems"(1,4) have "drop off buf = byte_of T_NULL # rest" by simp
  from decode_null [OF this] "1.prems"(1) show ?case by (auto simp: f)
next
  case (2 b)
  from "2.prems"(3) obtain f where f: "fuel = Suc f" by (cases fuel) auto
  from "2.prems"(1,4) have "drop off buf = byte_of T_BOOL # (if b then 1 else 0) # rest"
    by auto
  from decode_bool [OF this] "2.prems"(1) show ?case by (auto simp: f)
next
  case (3 v)
  from "3.prems"(3) obtain f where f: "fuel = Suc f" by (cases fuel) auto
  from "3.prems"(2) have range: "- 2147483648 \<le> v" "v \<le> 2147483647" by simp_all
  consider (i8) "- 128 \<le> v" "v \<le> 127"
    | (i16) "- 32768 \<le> v" "v \<le> 32767" "v < - 128 \<or> 127 < v"
    | (i32) "v < - 32768 \<or> 32767 < v"
    by linarith
  then show ?case
  proof cases
    case i8
    from "3.prems"(1) have p: "p = [byte_of T_INT8, byte_of (nat (v mod 256))]"
      by (simp only: encodeValue_int8 [OF i8]) simp
    with "3.prems"(4) have "drop off buf = byte_of T_INT8 # byte_of (nat (v mod 256)) # rest"
      by simp
    from decode_int8 [OF this i8] show ?thesis by (simp add: f p)
  next
    case i16
    from "3.prems"(1) have p: "p = byte_of T_INT16 # be16 (nat (v mod 65536))"
      by (simp only: encodeValue_int16 [OF i16]) simp
    with "3.prems"(4) have "drop off buf = byte_of T_INT16 # be16 (nat (v mod 65536)) @ rest"
      by simp
    from decode_int16 [OF this i16(1,2)] show ?thesis by (simp add: f p length_be16)
  next
    case i32
    from "3.prems"(1) have p: "p = byte_of T_INT32 # be32 (nat (v mod 4294967296))"
      by (simp only: encodeValue_int32 [OF range i32]) simp
    with "3.prems"(4)
    have "drop off buf = byte_of T_INT32 # be32 (nat (v mod 4294967296)) @ rest"
      by simp
    from decode_int32 [OF this range] show ?thesis by (simp add: f p length_be32)
  qed
next
  case (4 w)
  from "4.prems"(3) obtain f where f: "fuel = Suc f" by (cases fuel) auto
  from "4.prems"(1) have p: "p = byte_of T_FLOAT64 # be64 w"
    by (simp add: tagged_def writeDoubleBE_def)
  with "4.prems"(4) have "drop off buf = byte_of T_FLOAT64 # be64 w @ rest" by simp
  moreover from "4.prems"(2) have "doubleToNumber w = JFloat w" by simp
  ultimately have "decodeValue toStr (Suc f) buf off = Inr (JFloat w, off + 9)"
    by (rule decode_float64)
  then show ?case by (simp add: f p length_be64)
next
  case (5 s)
  from "5.prems"(3) obtain f where f: "fuel = Suc f" by (cases fuel) auto
  from "5.prems"(1) have "encodeString s = Inr p" by simp
  from encodeString_Inr [OF this]
  have len: "length s < 4294967296" and p: "p = byte_of T_STRING # be32 (length s) @ utf8 s"
    by simp_all
  from "5.prems"(4) have d: "drop off buf = byte_of T_STRING # be32 (length s) @ utf8 s @ rest"
    by (simp add: p)
  from "5.prems"(2) have valid: "valid_utf8 s" by simp
  have "decodeValue toStr (Suc f) buf off = Inr (JString s, off + 5 + length s)"
    by (rule decode_string [OF d len valid])
  then show ?case
    by (simp add: f p length_be32 length_utf8)
next
  case (6 xs)
  from "6.prems"(3) obtain f where f: "fuel = Suc f" and nf: "nesting_items xs \<le> f"
    by (cases fuel) auto
  from encodeValue_array_Inr [OF "6.prems"(1)] obtain q
    where len: "length xs < 4294967296" and q: "encodeItems xs = Inr q"
      and p: "p = byte_of T_ARRAY # be32 (length xs) @ q"
    by blast
  have tg: "tagged T_ARRAY (writeUInt32BE (length xs)) = Inr (byte_of T_ARRAY # be32 (length xs))"
    using len by (simp add: tagged_def writeUInt32BE_def)
  from "6.prems"(4) have d: "drop off buf = byte_of T_ARRAY # be32 (length xs) @ q @ rest"
    by (simp add: p)
  have "drop (off + length (byte_of T_ARRAY # be32 (length xs))) buf = q @ rest"
    by (rule drop_add_eq) (simp add: d)
  then have d5: "drop (off + 5) buf = q @ rest" by (simp add: length_be32)
  from "6.prems"(2) have dom: "domain_items xs" by simp
  have "decodeItems toStr f buf (off + 5) (length xs) [] = Inr ([] @ xs, off + 5 + length q)"
    by (rule "6.IH" [OF tg q dom nf d5])
  then have "decodeItems toStr f buf (off + 5) (length xs) [] = Inr (xs, off + length p)"
    by (simp add: p length_be32)
  from decode_array [OF d len this] show ?case by (simp add: f)
next
  case (7 ps)
  from "7.prems"(3) obtain f where f: "fuel = Suc f" and nf: "nesting_pairs ps \<le> f"
    by (cases fuel) auto
  from encodeValue_object_Inr [OF "7.prems"(1)] obtain q
    where len: "length ps < 4294967296" and q: "encodePairs ps = Inr q"
      and p: "p = byte_of T_OBJECT # be32 (length ps) @ q"
    by blast
  have tg: "tagged T_OBJECT (writeUInt32BE (length ps)) = Inr (byte_of T_OBJECT # be32 (length ps))"
    using len by (simp add: tagged_def writeUInt32BE_def)
  from "7.prems"(4) have d: "drop off buf = byte_of T_OBJECT # be32 (length ps) @ q @ rest"
    by (simp add: p)
  have "drop (off + length (byte_of T_OBJECT # be32 (length ps))) buf = q @ rest"
    by (rule drop_add_eq) (simp add: d)
  then have d5: "drop (off + 5) buf = q @ rest" by (simp add: length_be32)
  from "7.prems"(2) have dom: "domain_pairs ps" and dist: "distinct (map fst ps)"
    and order: "ownKeyOrder (map fst [] @ map fst ps)"
    by simp_all
  have "decodePairs toStr f buf (off + 5) (length ps) [] = Inr ([] @ ps, off + 5 + length q)"
    by (rule "7.IH" [OF tg q dom dist _ order nf d5]) simp
  then have "decodePairs toStr f buf (off + 5) (length ps) [] = Inr (ps, off + length p)"
    by (simp add: p length_be32)
  from decode_object [OF d len this] show ?case by (simp add: f)
next
  case 8
  then show ?case by simp
next
  case (9 x xs)
  from encodeItems_Cons_Inr [OF "9.prems"(1)] obtain b q
    where b: "encodeValue x = Inr b" and q: "encodeItems xs = Inr q" and p: "p = b @ q"
    by blast
  from "9.prems"(2) have dx: "codec_domain x" and dxs: "domain_items xs" by simp_all
  from "9.prems"(3) have nx: "nesting x \<le> fuel" and nxs: "nesting_items xs \<le> fuel"
    by simp_all
  from "9.prems"(4) have d: "drop off buf = b @ q @ rest" by (simp add: p)
  have v: "decodeValue toStr fuel buf off = Inr (x, off + length b)"
    by (rule "9.IH"(1) [OF b dx nx d])
  have d': "drop (off + length b) buf = q @ rest"
    by (rule drop_add_eq [OF d])
  have "decodeItems toStr fuel buf (off + length b) (length xs) (acc @ [x])
      = Inr ((acc @ [x]) @ xs, off + length b + length q)"
    by (rule "9.IH"(2) [OF b q dxs nxs d'])
  then show ?case by (simp add: v p)
next
  case 10
  then show ?case by simp
next
  case (11 kv ps)
  from encodePairs_Cons_Inr [OF "11.prems"(1)] obtain kb vb q
    where kb: "encodeString (fst kv) = Inr kb" and vb: "encodeValue (snd kv) = Inr vb"
      and q: "encodePairs ps = Inr q" and p: "p = kb @ vb @ q"
    by blast
  from encodeString_Inr [OF kb]
  have klen: "length (fst kv) < 4294967296"
    and kbe: "kb = byte_of T_STRING # be32 (length (fst kv)) @ utf8 (fst kv)"
    by simp_all
  from "11.prems"(6) obtain f where f: "fuel = Suc f" by (cases fuel) auto
  from "11.prems"(2) have dv: "codec_domain (snd kv)" and dps: "domain_pairs ps"
    and named: "fst kv \<noteq> ''__proto__''" and valid: "valid_utf8 (fst kv)"
    by simp_all
  from "11.prems"(5) have order: "ownKeyOrder (map fst (obj @ [kv]) @ map fst ps)" by simp
  then have last: "ownKeyOrder (map fst obj @ [fst kv])"
    using ownKeyOrder_prefix [of "map fst obj @ [fst kv]" "map fst ps"] by simp
  from "11.prems"(3) have fresh: "fst kv \<notin> fst ` set ps" and dist: "distinct (map fst ps)"
    by simp_all
  from "11.prems"(4) have new: "fst kv \<notin> fst ` set obj"
    and disj: "fst ` set ps \<inter> fst ` set obj = {}"
    by auto
  from "11.prems"(6) have nv: "nesting (snd kv) \<le> fuel" and nps: "nesting_pairs ps \<le> fuel"
    by simp_all
  from "11.prems"(7)
  have d: "drop off buf = byte_of T_STRING # be32 (length (fst kv)) @ utf8 (fst kv) @ vb @ q @ rest"
    by (simp add: p kbe)
  have k: "decodeValue toStr fuel buf off = Inr (JString (fst kv), off + length kb)"
    using decode_string [OF d klen valid, of toStr f]
    by (simp add: f kbe length_be32 length_utf8)
  have "drop off buf = kb @ vb @ q @ rest" using "11.prems"(7) by (simp add: p)
  then have d1: "drop (off + length kb) buf = vb @ q @ rest" by (rule drop_add_eq)
  have v: "decodeValue toStr fuel buf (off + length kb)
      = Inr (snd kv, off + length kb + length vb)"
    by (rule "11.IH"(1) [OF kb vb dv nv d1])
  have d2: "drop (off + length kb + length vb) buf = q @ rest"
    by (rule drop_add_eq [OF d1])
  have put: "putProperty obj (toPropertyKey toStr (JString (fst kv))) (snd kv) = obj @ [kv]"
    by (simp add: toPropertyKey_def putProperty_new [OF new named last])
  have disj': "fst ` set ps \<inter> fst ` set (obj @ [kv]) = {}"
    using disj fresh by auto
  have "decodePairs toStr fuel buf (off + length kb + length vb) (length ps) (obj @ [kv])
      = Inr ((obj @ [kv]) @ ps, off + length kb + length vb + length q)"
    by (rule "11.IH"(2) [OF kb vb q dps dist disj' order nps d2])
  then show ?case by (simp add: k v put p)
qed

subsection \<open>encode succeeds on the domain\<close>

lemma size_bounds:
  "0 < payload_size v" "length xs \<le> items_size xs" "length ps \<le> pairs_size ps"
  by (induction v and xs and ps rule: payload_size_items_size_pairs_size.induct) auto

lemma nesting_le_size:
  "nesting v \<le> payload_size v" "nesting_items xs \<le> items_size xs"
  "nesting_pairs ps \<le> pairs_size ps"
  by (induction v and xs and ps rule: payload_size_items_size_pairs_size.induct) auto

lemma encode_on_domain:
  "codec_domain v \<Longrightarrow> payload_size v < 4294967296
     \<Longrightarrow> \<exists>p. encodeValue v = Inr p \<and> length p = payload_size v"
  "domain_items xs \<Longrightarrow> items_size xs < 4294967296
     \<Longrightarrow> \<exists>p. encodeItems xs = Inr p \<and> length p = items_size xs"
  "domain_pairs ps \<Longrightarrow> pairs_size ps < 4294967296
     \<Longrightarrow> \<exists>p. encodePairs ps = Inr p \<and> length p = pairs_size ps"
proof (induction v and xs and ps rule: payload_size_items_size_pairs_size.induct)
  case (3 v)
  then show ?case
    by (auto simp: tagged_def writeInt8_def writeInt16BE_def writeInt32BE_def
        length_be16 length_be32)
next
  case (4 w)
  then show ?case by (simp add: tagged_def writeDoubleBE_def length_be64)
next
  case (5 s)
  then show ?case
    by (simp add: encodeString_def tagged_def writeUInt32BE_def Let_def length_utf8 length_be32)
next
  case (6 xs)
  from "6.prems" have "items_size xs < 4294967296" "domain_items xs" by simp_all
  with "6.IH" obtain q where q: "encodeItems xs = Inr q" "length q = items_size xs" by blast
  moreover have "length xs < 4294967296"
    using size_bounds(2) [of xs] \<open>items_size xs < 4294967296\<close> by simp
  ultimately show ?case
    by (simp add: tagged_def writeUInt32BE_def length_be32)
next
  case (7 ps)
  from "7.prems" have "pairs_size ps < 4294967296" "domain_pairs ps" by simp_all
  with "7.IH" obtain q where q: "encodePairs ps = Inr q" "length q = pairs_size ps" by blast
  moreover have "length ps < 4294967296"
    using size_bounds(3) [of ps] \<open>pairs_size ps < 4294967296\<close> by simp
  ultimately show ?case
    by (simp add: tagged_def writeUInt32BE_def length_be32)
next
  case (9 x xs)
  from "9.prems" have "codec_domain x" "payload_size x < 4294967296"
    "domain_items xs" "items_size xs < 4294967296" by simp_all
  with "9.IH" obtain b q where "encodeValue x = Inr b" "length b = payload_size x"
    "encodeItems xs = Inr q" "length q = items_size xs" by blast
  then show ?case by simp
next
  case (11 kv ps)
  from "11.prems" have "codec_domain (snd kv)" "payload_size (snd kv) < 4294967296"
    "domain_pairs ps" "pairs_size ps < 4294967296" "length (fst kv) < 4294967296"
    by simp_all
  with "11.IH" obtain b q where "encodeValue (snd kv) = Inr b"
    "length b = payload_size (snd kv)" "encodePairs ps = Inr q" "length q = pairs_size ps"
    by blast
  with \<open>length (fst kv) < 4294967296\<close> show ?case
    by (simp add: encodeString_def tagged_def writeUInt32BE_def Let_def length_utf8
        length_be32)
qed simp_all

lemma decodePayload_encodeValue:
  assumes "encodeValue v = Inr p" "codec_domain v" "length p = payload_size v"
  shows "decodePayload toStr p = Inr v"
proof -
  have "nesting v \<le> Suc (length p)"
    using nesting_le_size(1) [of v] assms(3) by simp
  moreover have "drop 0 p = p @ []" by simp
  ultimately have "decodeValue toStr (Suc (length p)) p 0 = Inr (v, 0 + length p)"
    by (rule decode_encode_value [OF assms(1,2)])
  then show ?thesis by (simp add: decodePayload_def)
qed

lemma decode_packet:
  assumes "n < 4294967296" "length payload = n"
  shows "decode toStr ([0xA1, 0x14, byte_of VERSION, 0x00] @ be32 n @ payload)
     = decodePayload toStr payload"
proof -
  let ?b = "[0xA1, 0x14, byte_of VERSION, 0x00] @ be32 n @ payload"
  have len: "length ?b = 8 + n" by (simp add: length_be32 assms(2))
  have "take 4 (drop 4 ?b) = be32 n" by (simp add: length_be32)
  then have u: "uint_be (take 4 (drop 4 ?b)) = n" by (simp only: uint_be_be32 [OF assms(1)])
  have d: "drop 8 ?b = payload" by (simp add: length_be32)
  have m: "unat (?b ! 0) = 0xA1" "unat (?b ! 1) = 0x14" "unat (?b ! 2) = 1"
    by (simp_all add: VERSION_def byte_of_def)
  show ?thesis
    by (simp only: decode_checks [of toStr ?b] len u d m) simp
qed

subsection \<open>Two values that do not come back\<close>

lemma encode_proto_object:
  "encode (JObject [(''__proto__'', JInt 1), (''x'', JInt 2)])
     = Inr [0xA1, 0x14, 0x01, 0x00, 0x00, 0x00, 0x00, 0x1D,
            0x09, 0x00, 0x00, 0x00, 0x02,
            0x07, 0x00, 0x00, 0x00, 0x09, 0x5F, 0x5F, 0x70, 0x72, 0x6F, 0x74, 0x6F, 0x5F, 0x5F,
            0x02, 0x01,
            0x07, 0x00, 0x00, 0x00, 0x01, 0x78,
            0x02, 0x02]"
  by (simp add: encode_def encodePayload_def createHeader_def encodeString_def tagged_def
      writeUInt32BE_def writeInt8_def utf8_def surrogateTail_def be32_def byte_of_def
      VERSION_def tag_defs)

lemma decode_proto_object:
  "decode toStr [0xA1, 0x14, 0x01, 0x00, 0x00, 0x00, 0x00, 0x1D,
            0x09, 0x00, 0x00, 0x00, 0x02,
            0x07, 0x00, 0x00, 0x00, 0x09, 0x5F, 0x5F, 0x70, 0x72, 0x6F, 0x74, 0x6F, 0x5F, 0x5F,
            0x02, 0x01,
            0x07, 0x00, 0x00, 0x00, 0x01, 0x78,
            0x02, 0x02]
     = Inr (JObject [(''x'', JInt 2)])"
proof -
  let ?k1 = "[0x07, 0x00, 0x00, 0x00, 0x09, 0x5F, 0x5F, 0x70, 0x72, 0x6F, 0x74, 0x6F, 0x5F, 0x5F] :: buffer"
  let ?v1 = "[0x02, 0x01] :: buffer"
  let ?k2 = "[0x07, 0x00, 0x00, 0x00, 0x01, 0x78] :: buffer"
  let ?v2 = "[0x02, 0x02] :: buffer"
  let ?P = "[0x09, 0x00, 0x00, 0x00, 0x02] @ ?k1 @ ?v1 @ ?k2 @ ?v2"
  have e1: "encodeValue (JString ''__proto__'') = Inr ?k1"
    and e3: "encodeValue (JString ''x'') = Inr ?k2"
    by (simp_all add: encodeString_def tagged_def writeUInt32BE_def utf8_def
        surrogateTail_def be32_def byte_of_def tag_defs)
  have e2: "encodeValue (JInt 1) = Inr ?v1" and e4: "encodeValue (JInt 2) = Inr ?v2"
    by (simp_all add: tagged_def writeInt8_def byte_of_def tag_defs)
  have c1: "codec_domain (JString ''__proto__'')" and c3: "codec_domain (JString ''x'')"
    by (simp_all add: valid_utf8_def startByte_def)
  have s1: "decodeValue toStr 29 ?P 5 = Inr (JString ''__proto__'', 19)"
    using decode_encode_value [OF e1 c1, of 29 5 ?P "?v1 @ ?k2 @ ?v2" toStr] by simp
  have s2: "decodeValue toStr 29 ?P 19 = Inr (JInt 1, 21)"
    using decode_encode_value [OF e2, of 29 19 ?P "?k2 @ ?v2" toStr] by simp
  have s3: "decodeValue toStr 29 ?P 21 = Inr (JString ''x'', 27)"
    using decode_encode_value [OF e3 c3, of 29 21 ?P "?v2" toStr] by simp
  have s4: "decodeValue toStr 29 ?P 27 = Inr (JInt 2, 29)"
    using decode_encode_value [OF e4, of 29 27 ?P "[]" toStr] by simp
  have x: "arrayIndex ''x'' = None" by (simp add: arrayIndex_def isDigit_def)
  have "decodePairs toStr 29 ?P (0 + 5) (Suc (Suc 0)) [] = Inr ([(''x'', JInt 2)], 29)"
    using s1 s2 s3 s4 by (simp add: toPropertyKey_def putProperty_def x)
  then have pairs: "decodePairs toStr 29 ?P (0 + 5) 2 [] = Inr ([(''x'', JInt 2)], 29)"
    by (simp only: numeral_2_eq_2)
  have d: "drop 0 ?P = byte_of T_OBJECT # be32 2 @ (?k1 @ ?v1 @ ?k2 @ ?v2)"
    by (simp add: be32_def byte_of_def tag_defs)
  have val: "decodeValue toStr (Suc 29) ?P 0 = Inr (JObject [(''x'', JInt 2)], 29)"
    by (rule decode_object [OF d _ pairs]) simp
  have len: "length ?P = 29" by simp
  have "decodePayload toStr ?P = Inr (JObject [(''x'', JInt 2)])"
    unfolding decodePayload_def len val by simp
  moreover have "decode toStr ([0xA1, 0x14, byte_of VERSION, 0x00] @ be32 29 @ ?P)
      = decodePayload toStr ?P"
    by (rule decode_packet) simp_all
  moreover note len
  ultimately show ?thesis by (simp add: be32_def byte_of_def VERSION_def)
qed

lemma encode_lone_surrogate:
  "encode (JString [CHR 0xED, CHR 0xA0, CHR 0x80])
     = Inr [0xA1, 0x14, 0x01, 0x00, 0x00, 0x00, 0x00, 0x08,
            0x07, 0x00, 0x00, 0x00, 0x03, 0xEF, 0xBF, 0xBD]"
  by (simp add: encode_def encodePayload_def createHeader_def encodeString_def tagged_def
      writeUInt32BE_def utf8_def surrogateTail_def REPLACEMENT_def be32_def byte_of_def
      VERSION_def tag_defs numeral_2_eq_2)

lemma decode_replacement:
  "decode toStr [0xA1, 0x14, 0x01, 0x00, 0x00, 0x00, 0x00, 0x08,
            0x07, 0x00, 0x00, 0x00, 0x03, 0xEF, 0xBF, 0xBD]
     = Inr (JString [CHR 0xEF, CHR 0xBF, CHR 0xBD])"
proof -
  let ?s = "[CHR 0xEF, CHR 0xBF, CHR 0xBD]"
  let ?P = "[0x07, 0x00, 0x00, 0x00, 0x03, 0xEF, 0xBF, 0xBD] :: buffer"
  have e: "encodeValue (JString ?s) = Inr ?P"
    by (simp add: encodeString_def tagged_def writeUInt32BE_def utf8_def
        surrogateTail_def be32_def byte_of_def tag_defs)
  have c: "codec_domain (JString ?s)"
    by (simp add: valid_utf8_def startByte_def)
  have "decodePayload toStr ?P = Inr (JString ?s)"
    by (rule decodePayload_encodeValue [OF e c]) simp
  moreover have "decode toStr ([0xA1, 0x14, byte_of VERSION, 0x00] @ be32 8 @ ?P)
      = decodePayload toStr ?P"
    by (rule decode_packet) simp_all
  ultimately show ?thesis by (simp add: be32_def byte_of_def VERSION_def)
qed

text \<open>
  C1, as the claim states it, fails on two values of its domain. A map with the key
  \<open>__proto__\<close>: \<open>encode\<close> writes both pairs, and \<open>decode\<close> assigns
  \<open>obj['__proto__'] = 1\<close>, which adds no property, so that the map comes back
  without the pair. A string with a surrogate that has no partner, here U+D800:
  \<open>encode\<close> writes U+FFFD in its place, and \<open>decode\<close> returns the string U+FFFD.
\<close>

theorem codec_round_trip_counterexample:
  "encode (JObject [(''__proto__'', JInt 1), (''x'', JInt 2)])
     = Inr [0xA1, 0x14, 0x01, 0x00, 0x00, 0x00, 0x00, 0x1D,
            0x09, 0x00, 0x00, 0x00, 0x02,
            0x07, 0x00, 0x00, 0x00, 0x09, 0x5F, 0x5F, 0x70, 0x72, 0x6F, 0x74, 0x6F, 0x5F, 0x5F,
            0x02, 0x01,
            0x07, 0x00, 0x00, 0x00, 0x01, 0x78,
            0x02, 0x02]
   \<and> decode (\<lambda>k. []) [0xA1, 0x14, 0x01, 0x00, 0x00, 0x00, 0x00, 0x1D,
            0x09, 0x00, 0x00, 0x00, 0x02,
            0x07, 0x00, 0x00, 0x00, 0x09, 0x5F, 0x5F, 0x70, 0x72, 0x6F, 0x74, 0x6F, 0x5F, 0x5F,
            0x02, 0x01,
            0x07, 0x00, 0x00, 0x00, 0x01, 0x78,
            0x02, 0x02]
     = Inr (JObject [(''x'', JInt 2)])
   \<and> JObject [(''x'', JInt 2)] \<noteq> JObject [(''__proto__'', JInt 1), (''x'', JInt 2)]
   \<and> encode (JString [CHR 0xED, CHR 0xA0, CHR 0x80])
     = Inr [0xA1, 0x14, 0x01, 0x00, 0x00, 0x00, 0x00, 0x08,
            0x07, 0x00, 0x00, 0x00, 0x03, 0xEF, 0xBF, 0xBD]
   \<and> decode (\<lambda>k. []) [0xA1, 0x14, 0x01, 0x00, 0x00, 0x00, 0x00, 0x08,
            0x07, 0x00, 0x00, 0x00, 0x03, 0xEF, 0xBF, 0xBD]
     = Inr (JString [CHR 0xEF, CHR 0xBF, CHR 0xBD])
   \<and> JString [CHR 0xEF, CHR 0xBF, CHR 0xBD] \<noteq> JString [CHR 0xED, CHR 0xA0, CHR 0x80]"
  by (simp only: encode_proto_object decode_proto_object encode_lone_surrogate
      decode_replacement) simp

text \<open>
  C1, amended. For every structured value of the domain (null, booleans, integers that
  fit the INT8, INT16 or INT32 tag, non-integral numbers, strings, arrays and
  string-keyed maps, nested in any way) in which no string and no key has a lone
  surrogate and no key is \<open>__proto__\<close>, and whose encoding fits the 4-byte length
  field of the header, \<open>encode\<close> produces a packet and \<open>decode\<close> of that packet
  returns the same value, the keys of every map in the order in which
  \<open>Object.keys\<close> lists them (for numbers, the same value up to the sign of zero).
\<close>

theorem codec_round_trip:
  assumes "codec_domain v" "payload_size v < 4294967296"
  shows "\<exists>packet. encode v = Inr packet \<and> decode toStr packet = Inr v"
proof -
  from encode_on_domain(1) [OF assms] obtain p
    where p: "encodeValue v = Inr p" and len: "length p = payload_size v" by blast
  have n: "length p < 4294967296" using assms(2) len by simp
  have e: "encode v = Inr ([0xA1, 0x14, byte_of VERSION, 0x00] @ be32 (length p) @ p)"
    using n by (simp add: encode_def encodePayload_def createHeader_def writeUInt32BE_def p)
  have "decode toStr ([0xA1, 0x14, byte_of VERSION, 0x00] @ be32 (length p) @ p)
      = decodePayload toStr p"
    by (rule decode_packet [OF n refl])
  also have "\<dots> = Inr v" by (rule decodePayload_encodeValue [OF p assms(1) len])
  finally show ?thesis using e by simp
qed

theorem codec_round_trip_witness:
  "\<exists>packet.
     encode (JObject [(''7'', JString ''__proto__''),
                      (''b'', JArray [JInt (- 129), JInt 32768, JInt 7, JFloat 0x3FF8000000000000,
                                   JString [CHR 0xC3, CHR 0xA9], JString [], JArray []]),
                      (''a'', JObject [(''t'', JBool True), (''n'', JNull), (''e'', JObject [])])])
       = Inr packet
     \<and> decode (\<lambda>k. []) packet
       = Inr (JObject [(''7'', JString ''__proto__''),
                      (''b'', JArray [JInt (- 129), JInt 32768, JInt 7, JFloat 0x3FF8000000000000,
                                   JString [CHR 0xC3, CHR 0xA9], JString [], JArray []]),
                      (''a'', JObject [(''t'', JBool True), (''n'', JNull), (''e'', JObject [])])])"
  by (rule codec_round_trip)
    (simp_all add: valid_utf8_def startByte_def arrayIndex_def isDigit_def digitsValue_def
      doubleToNumber_def)

subsection \<open>The recursion bound of decodePayload is never reached\<close>

lemma bytes_at_error: "bytes_at buf off n = Inl e \<Longrightarrow> e = OutOfRange"
  by (simp add: bytes_at_def split: if_splits)

lemma read_errors:
  "readUInt8 buf off = Inl e \<Longrightarrow> e = OutOfRange"
  "readUInt32BE buf off = Inl e \<Longrightarrow> e = OutOfRange"
  "readInt8 buf off = Inl e \<Longrightarrow> e = OutOfRange"
  "readInt16BE buf off = Inl e \<Longrightarrow> e = OutOfRange"
  "readInt32BE buf off = Inl e \<Longrightarrow> e = OutOfRange"
  "readDoubleBE buf off = Inl e \<Longrightarrow> e = OutOfRange"
  by (cases "bytes_at buf off 1"; cases "bytes_at buf off 2"; cases "bytes_at buf off 4";
      cases "bytes_at buf off 8";
      auto simp: readUInt8_def readUInt32BE_def readInt8_def readInt16BE_def readInt32BE_def
        readDoubleBE_def dest: bytes_at_error)+

lemma decodeScalar_error:
  "decodeScalar t buf off = Inl e \<Longrightarrow> e = OutOfRange \<or> e = UnknownType t"
  by (cases "readUInt8 buf off"; cases "readInt8 buf off"; cases "readInt16BE buf off";
      cases "readInt32BE buf off"; cases "readDoubleBE buf off"; cases "readUInt32BE buf off")
    (auto simp: decodeScalar_def dest: read_errors split: if_splits)

lemma decodeScalar_advances: "decodeScalar t buf off = Inr (v, off') \<Longrightarrow> off \<le> off'"
  by (cases "readUInt8 buf off"; cases "readInt8 buf off"; cases "readInt16BE buf off";
      cases "readInt32BE buf off"; cases "readDoubleBE buf off"; cases "readUInt32BE buf off")
    (auto simp: decodeScalar_def split: if_splits)

lemma readUInt8_inside: "readUInt8 buf off = Inr t \<Longrightarrow> off < length buf"
  by (simp add: readUInt8_nth split: if_splits)

lemma decode_advances_and_fuel:
  "(\<forall>v off'. decodeValue toStr fuel buf off = Inr (v, off') \<longrightarrow> off < off')
   \<and> (length buf - off < fuel \<longrightarrow> decodeValue toStr fuel buf off \<noteq> Inl FuelExhausted)"
  "(\<forall>xs off'. decodeItems toStr fuel buf off n arr = Inr (xs, off') \<longrightarrow> off \<le> off')
   \<and> (length buf - off < fuel \<longrightarrow> decodeItems toStr fuel buf off n arr \<noteq> Inl FuelExhausted)"
  "(\<forall>ps off'. decodePairs toStr fuel buf off n obj = Inr (ps, off') \<longrightarrow> off \<le> off')
   \<and> (length buf - off < fuel \<longrightarrow> decodePairs toStr fuel buf off n obj \<noteq> Inl FuelExhausted)"
proof (induction toStr fuel buf off and toStr fuel buf off n arr and toStr fuel buf off n obj
    rule: decodeValue_decodeItems_decodePairs.induct)
  case (1 toStr buf off)
  show ?case by simp
next
  case (2 toStr fuel buf off)
  show ?case
  proof (cases "readUInt8 buf off")
    case (Inl e)
    then show ?thesis by (auto dest: read_errors)
  next
    case (Inr t)
    note inside = readUInt8_inside [OF Inr]
    show ?thesis
    proof (cases "t = T_ARRAY")
      case True
      show ?thesis
      proof (cases "readUInt32BE buf (off + 1)")
        case (Inl e)
        then show ?thesis using Inr True by (auto dest: read_errors)
      next
        case n: (Inr n)
        from "2.IH"(1) [OF Inr True n] inside show ?thesis
          using Inr True n
          by (cases "decodeItems toStr fuel buf (off + 1 + 4) n []") auto
      qed
    next
      case False
      show ?thesis
      proof (cases "t = T_OBJECT")
        case True
        show ?thesis
        proof (cases "readUInt32BE buf (off + 1)")
          case (Inl e)
          then show ?thesis using Inr True False by (auto dest: read_errors)
        next
          case n: (Inr n)
          from "2.IH"(2) [OF Inr False True n] inside show ?thesis
            using Inr True False n
            by (cases "decodePairs toStr fuel buf (off + 1 + 4) n []") auto
        qed
      next
        case notobj: False
        show ?thesis
        proof (cases "decodeScalar t buf (off + 1)")
          case (Inl e)
          with decodeScalar_error [OF Inl] show ?thesis using Inr False notobj by auto
        next
          case r: (Inr r)
          obtain v off' where "r = (v, off')" by (cases r)
          with decodeScalar_advances [of t buf "off + 1" v off'] r show ?thesis
            using Inr False notobj by auto
        qed
      qed
    qed
  qed
next
  case (3 toStr fuel buf off arr)
  show ?case by simp
next
  case (4 toStr fuel buf off n arr)
  show ?case
  proof (cases "decodeValue toStr fuel buf off")
    case (Inl e)
    then show ?thesis using "4.IH"(1) by auto
  next
    case (Inr r)
    obtain v off1 where r: "r = (v, off1)" by (cases r)
    from "4.IH"(1) Inr r have "off < off1" by auto
    with "4.IH"(2) [OF Inr] show ?thesis using Inr r by auto
  qed
next
  case (5 toStr fuel buf off obj)
  show ?case by simp
next
  case (6 toStr fuel buf off n obj)
  show ?case
  proof (cases "decodeValue toStr fuel buf off")
    case (Inl e)
    then show ?thesis using "6.IH"(1) by auto
  next
    case kr: (Inr kr)
    obtain k off1 where k: "kr = (k, off1)" by (cases kr)
    from "6.IH"(1) kr k have o1: "off < off1" by auto
    show ?thesis
    proof (cases "decodeValue toStr fuel buf off1")
      case (Inl e)
      then show ?thesis using "6.IH"(2) [OF kr] kr k o1 by auto
    next
      case vr: (Inr vr)
      obtain v off2 where v: "vr = (v, off2)" by (cases vr)
      from "6.IH"(2) [OF kr] vr k v have o2: "off1 < off2" by auto
      from vr k have vr': "decodeValue toStr fuel buf (snd kr) = Inr vr" by simp
      from "6.IH"(3) [OF kr vr'] show ?thesis using kr k vr v o1 o2 by auto
    qed
  qed
qed

lemma decodePayload_fuel: "decodePayload toStr payload \<noteq> Inl FuelExhausted"
proof -
  have "decodeValue toStr (Suc (length payload)) payload 0 \<noteq> Inl FuelExhausted"
    using decode_advances_and_fuel(1) [of toStr "Suc (length payload)" payload 0] by simp
  then show ?thesis
    by (cases "decodeValue toStr (Suc (length payload)) payload 0")
      (auto simp: decodePayload_def)
qed

section \<open>Properties of the command packets\<close>

lemma find_command_SEND:
  "find (\<lambda>key. map_of COMMANDS key = Some 16) (map fst COMMANDS) = Some ''SEND''"
  by (simp add: COMMANDS_def)

text \<open>
  C4 (command round trip), at the input where the code departs from it: for the data value
  0, which is given and is not absent, \<open>createCommand\<close> takes the falsy branch of
  \<open>data ? \<dots> : \<dots>\<close> and writes the command byte alone, and \<open>parseCommand\<close> of
  that packet returns the name with no data instead of the value 0.
\<close>

theorem createCommand_drops_falsy_data:
  "createCommand ''SEND'' (Some (JInt 0)) = Inr [0x10]
   \<and> parseCommand toStr [0x10] = Inr (''SEND'', None)
   \<and> createCommand ''SEND'' (Some (JInt 0)) = createCommand ''SEND'' None"
proof (intro conjI)
  show c: "createCommand ''SEND'' (Some (JInt 0)) = Inr [0x10]"
    by (simp add: createCommand_def commandByte_def COMMANDS_def byte_of_def)
  show "parseCommand toStr [0x10] = Inr (''SEND'', None)"
    by (simp add: parseCommand_def readUInt8_nth find_command_SEND)
  show "createCommand ''SEND'' (Some (JInt 0)) = createCommand ''SEND'' None"
    by (simp add: createCommand_def)
qed

subsection \<open>Where the command round trip holds\<close>

lemma find_unique_value:
  assumes "distinct (map fst xs)" "distinct (map snd xs)" "(k, c) \<in> set xs"
  shows "find (\<lambda>x. map_of xs x = Some c) (map fst xs) = Some k"
proof -
  have pk: "map_of xs k = Some c" using assms(1,3) by (rule map_of_is_SomeI)
  have "k \<in> set (map fst xs)" using assms(3) by force
  with pk have "find (\<lambda>x. map_of xs x = Some c) (map fst xs) \<noteq> None"
    by (auto simp: find_None_iff)
  then obtain k' where f: "find (\<lambda>x. map_of xs x = Some c) (map fst xs) = Some k'" by auto
  then have "map_of xs k' = Some c" by (auto simp: find_Some_iff)
  then have k': "(k', c) \<in> set xs" by (rule map_of_SomeD)
  have inj: "inj_on snd (set xs)" using assms(2) by (simp add: distinct_map)
  have "(k', c) = (k, c)" by (rule inj_onD [OF inj _ k' assms(3)]) simp
  with f show ?thesis by simp
qed

lemma COMMANDS_distinct: "distinct (map fst COMMANDS)" "distinct (map snd COMMANDS)"
  by (simp_all add: COMMANDS_def)

lemma COMMANDS_codes: "(name, c) \<in> set COMMANDS \<Longrightarrow> c < 256"
  by (auto simp: COMMANDS_def)

lemma createCommand_unknown:
  "map_of COMMANDS name = None \<Longrightarrow> name \<notin> set OBJECT_PROTOTYPE
     \<Longrightarrow> createCommand name data = Inl (UnknownCommand name)"
  by (simp add: createCommand_def commandByte_def)

lemma createCommand_inherited:
  "createCommand ''toString'' None = Inr [0x00]"
  by (simp add: createCommand_def commandByte_def COMMANDS_def OBJECT_PROTOTYPE_def byte_of_def)

lemma parseCommand_empty: "parseCommand toStr [] = Inl EmptyPacket"
  by (simp add: parseCommand_def)

lemma parseCommand_unknown_code:
  assumes "find (\<lambda>x. map_of COMMANDS x = Some (unat b)) (map fst COMMANDS) = None"
  shows "parseCommand toStr (b # bs) = Inl (UnknownCommandCode (unat b))"
  using assms by (simp add: parseCommand_def readUInt8_nth)

lemma parseCommand_code_only:
  assumes "map_of COMMANDS name = Some c"
  shows "parseCommand toStr [byte_of c] = Inr (name, None)"
proof -
  from assms have m: "(name, c) \<in> set COMMANDS" by (rule map_of_SomeD)
  have u: "unat (byte_of c) = c" using COMMANDS_codes [OF m] by (simp add: unat_byte_of)
  have "find (\<lambda>x. map_of COMMANDS x = Some c) (map fst COMMANDS) = Some name"
    by (rule find_unique_value [OF COMMANDS_distinct m])
  then show ?thesis
    by (simp add: parseCommand_def readUInt8_nth u)
qed

lemma parse_create_absent:
  assumes "map_of COMMANDS name = Some c"
  shows "\<exists>packet. createCommand name None = Inr packet
     \<and> parseCommand toStr packet = Inr (name, None)"
  using assms parseCommand_code_only [OF assms, of toStr]
  by (simp add: createCommand_def commandByte_def)

lemma parse_create_truthy:
  assumes "map_of COMMANDS name = Some c" "truthy (Some v)" "codec_domain v"
    "payload_size v < 4294967296"
  shows "\<exists>packet. createCommand name (Some v) = Inr packet
     \<and> parseCommand toStr packet = Inr (name, Some v)"
proof -
  from encode_on_domain(1) [OF assms(3,4)] obtain p
    where p: "encodeValue v = Inr p" and len: "length p = payload_size v" by blast
  have ne: "p \<noteq> []" using len size_bounds(1) [of v] by auto
  from assms(1) have m: "(name, c) \<in> set COMMANDS" by (rule map_of_SomeD)
  have u: "unat (byte_of c) = c" using COMMANDS_codes [OF m] by (simp add: unat_byte_of)
  have f: "find (\<lambda>x. map_of COMMANDS x = Some c) (map fst COMMANDS) = Some name"
    by (rule find_unique_value [OF COMMANDS_distinct m])
  have c: "createCommand name (Some v) = Inr (byte_of c # p)"
    using assms(1,2) by (simp add: createCommand_def commandByte_def encodePayload_def p)
  have d: "decodePayload toStr p = Inr v"
    by (rule decodePayload_encodeValue [OF p assms(3) len])
  have "parseCommand toStr (byte_of c # p) = Inr (name, Some v)"
    using ne by (simp add: parseCommand_def readUInt8_nth u f subarray_def d)
  with c show ?thesis by simp
qed

section \<open>Properties of the eviction cache\<close>

subsection \<open>What each operation does to the items and to the evictions counter\<close>

lemma lru_find_None_iff: "lru_find k cm = None \<longleftrightarrow> k \<notin> item_key ` set (items cm)"
  by (auto simp: lru_find_def find_None_iff)

lemma lru_find_Some_key: "lru_find k cm = Some it \<Longrightarrow> item_key it = k \<and> it \<in> set (items cm)"
  by (auto simp: lru_find_def find_Some_iff)

lemma filter_absent_key:
  "k \<notin> item_key ` set xs \<Longrightarrow> filter (\<lambda>it. item_key it \<noteq> k) xs = xs"
  by (induction xs) auto

lemma items_lru_delete:
  "items (snd (lru_delete k cm)) = filter (\<lambda>it. item_key it \<noteq> k) (items cm)"
  by (auto simp: lru_delete_def lru_remove_def dispose_def lru_find_None_iff filter_absent_key
      split: option.splits)

lemma evictions_lru_delete:
  "evictions (snd (lru_delete k cm)) =
     evictions cm + (if k \<in> item_key ` set (items cm) then 1 else 0)"
  by (auto simp: lru_delete_def lru_remove_def dispose_def lru_find_None_iff
      dest: lru_find_Some_key split: option.splits)

lemma evictions_cache_delete_present:
  "k \<in> item_key ` set (items cm) \<Longrightarrow> evictions (snd (cache_delete k cm)) = evictions cm + 1"
  by (simp add: cache_delete_def evictions_lru_delete)

text \<open>
  C5 (eviction accounting), at the input where the code departs from it: in a cache of
  capacity 2, \<open>set\<close> of the key a followed by \<open>delete\<close> of a. The \<open>set\<close> evicts
  nothing and leaves the counter at 0; the \<open>delete\<close> returns true, removes the entry
  and, through the \<open>dispose\<close> callback, raises the evictions counter to 1.
\<close>

theorem delete_increments_evictions:
  "evictions (cache_set 0 ''a'' v None NORMAL (new_cache 2 300000)) = 0
   \<and> fst (cache_delete ''a'' (cache_set 0 ''a'' v None NORMAL (new_cache 2 300000))) = True
   \<and> items (snd (cache_delete ''a'' (cache_set 0 ''a'' v None NORMAL (new_cache 2 300000)))) = []
   \<and> evictions (snd (cache_delete ''a'' (cache_set 0 ''a'' v None NORMAL (new_cache 2 300000)))) = 1"
  by (simp add: cache_set_def cache_delete_def lru_set_def lru_delete_def lru_find_def
      lru_remove_def dispose_def new_cache_def item_key_def Let_def)

subsection \<open>The keys of the cache stay pairwise different\<close>

lemma keys_filter_other:
  "map item_key (filter (\<lambda>it. item_key it \<noteq> k) xs) = filter (\<lambda>x. x \<noteq> k) (map item_key xs)"
  by (induction xs) auto

lemma item_key_make: "item_key \<lparr>entry = e, start = s, item_ttl = t\<rparr> = key e"
  by (simp add: item_key_def)

lemma distinct_keys_new_cache: "distinct_keys (new_cache n a)"
  by (simp add: distinct_keys_def new_cache_def)

lemma distinct_keys_lru_set:
  assumes "distinct_keys cm" "key e = k"
  shows "distinct_keys (lru_set now k e t cm)"
proof (cases "lru_find k cm")
  case None
  then have "k \<notin> item_key ` set (items cm)" by (simp add: lru_find_None_iff)
  moreover have "k \<notin> item_key ` set (butlast (items cm))"
    using \<open>k \<notin> item_key ` set (items cm)\<close> by (auto dest: in_set_butlastD)
  moreover have "distinct (map item_key (butlast (items cm)))"
    using assms(1) by (simp add: distinct_keys_def map_butlast distinct_butlast)
  ultimately show ?thesis
    using assms None
    by (auto simp: lru_set_def Let_def dispose_def distinct_keys_def item_key_make)
next
  case (Some old)
  then show ?thesis
    using assms
    by (auto simp: lru_set_def Let_def dispose_def lru_remove_def distinct_keys_def
        keys_filter_other item_key_make)
qed

lemma distinct_keys_cache_set:
  "distinct_keys cm \<Longrightarrow> distinct_keys (cache_set now k v t p cm)"
proof -
  assume d: "distinct_keys cm"
  have "distinct_keys (lru_set now k e t' cm)" if "key e = k" for e :: "'a CacheEntry" and t'
    by (rule distinct_keys_lru_set [OF d that])
  then show ?thesis
    by (simp add: cache_set_def Let_def distinct_keys_def)
qed

lemma distinct_keys_cache_delete:
  "distinct_keys cm \<Longrightarrow> distinct_keys (snd (cache_delete k cm))"
  by (simp add: cache_delete_def distinct_keys_def items_lru_delete keys_filter_other)

subsection \<open>Evictions by capacity and by expiry\<close>

text \<open>
  A \<open>set\<close> of a new key on a full cache removes the least recently used entry and
  counts one eviction; a \<open>set\<close> of a new key on a cache that is not full counts none.
\<close>

lemma cache_set_full:
  assumes "k \<notin> item_key ` set (items cm)" "items cm \<noteq> []" "length (items cm) = maxSize cm"
  shows "map item_key (items (cache_set now k v t p cm)) = k # butlast (map item_key (items cm))"
    and "evictions (cache_set now k v t p cm) = evictions cm + 1"
    and "maxSize (cache_set now k v t p cm) = maxSize cm"
proof -
  have f: "lru_find k cm = None" using assms(1) by (simp add: lru_find_None_iff)
  show "map item_key (items (cache_set now k v t p cm)) = k # butlast (map item_key (items cm))"
    "evictions (cache_set now k v t p cm) = evictions cm + 1"
    "maxSize (cache_set now k v t p cm) = maxSize cm"
    using assms(2,3)
    by (simp_all add: cache_set_def lru_set_def Let_def dispose_def item_key_def map_butlast f)
qed

lemma cache_set_not_full:
  assumes "k \<notin> item_key ` set (items cm)" "length (items cm) < maxSize cm"
  shows "map item_key (items (cache_set now k v t p cm)) = k # map item_key (items cm)"
    and "evictions (cache_set now k v t p cm) = evictions cm"
    and "maxSize (cache_set now k v t p cm) = maxSize cm"
proof -
  have f: "lru_find k cm = None" using assms(1) by (simp add: lru_find_None_iff)
  show "map item_key (items (cache_set now k v t p cm)) = k # map item_key (items cm)"
    "evictions (cache_set now k v t p cm) = evictions cm"
    "maxSize (cache_set now k v t p cm) = maxSize cm"
    using assms(2)
    by (simp_all add: cache_set_def lru_set_def Let_def item_key_def f)
qed

text \<open>
  \<open>get\<close> of an entry whose time-to-live has run out removes it, counts one eviction
  and one miss, and returns nothing.
\<close>

lemma cache_get_expired:
  assumes "lru_find k cm = Some it" "isStale now it"
  shows "fst (cache_get now k cm) = None"
    and "items (snd (cache_get now k cm)) = filter (\<lambda>x. item_key x \<noteq> k) (items cm)"
    and "evictions (snd (cache_get now k cm)) = evictions cm + 1"
    and "misses (snd (cache_get now k cm)) = misses cm + 1"
  using assms
  by (simp_all add: cache_get_def lru_get_def lru_remove_def dispose_def)

text \<open>
  Inserting distinct keys, with no reads in between, into an empty cache of capacity
  \<open>N\<close>: up to \<open>N\<close> keys evict nothing, and the key number \<open>N + 1\<close> evicts the
  first one inserted and nothing else.
\<close>

lemma fill_below_capacity:
  assumes "distinct ks" "set ks \<inter> item_key ` set (items cm) = {}"
    "length (items cm) + length ks \<le> maxSize cm"
  shows "map item_key (items (fold (\<lambda>k. cache_set (tm k) k (vl k) (tt k) (pr k)) ks cm))
       = rev ks @ map item_key (items cm)
     \<and> evictions (fold (\<lambda>k. cache_set (tm k) k (vl k) (tt k) (pr k)) ks cm) = evictions cm
     \<and> maxSize (fold (\<lambda>k. cache_set (tm k) k (vl k) (tt k) (pr k)) ks cm) = maxSize cm"
  using assms
proof (induction ks arbitrary: cm)
  case Nil
  show ?case by simp
next
  case (Cons k ks)
  let ?cm = "cache_set (tm k) k (vl k) (tt k) (pr k) cm"
  from Cons.prems have k: "k \<notin> item_key ` set (items cm)"
    and lt: "length (items cm) < maxSize cm"
    by auto
  note step = cache_set_not_full [OF k lt, of "tm k" "vl k" "tt k" "pr k"]
  have len: "length (items ?cm) = Suc (length (items cm))"
    using arg_cong [OF step(1), of length] by simp
  have keys: "item_key ` set (items ?cm) = insert k (item_key ` set (items cm))"
    using arg_cong [OF step(1), of set] by simp
  have disj: "set ks \<inter> item_key ` set (items ?cm) = {}"
    using keys Cons.prems(1,2) by auto
  have d: "distinct ks" using Cons.prems(1) by simp
  have cap: "length (items ?cm) + length ks \<le> maxSize ?cm"
    using Cons.prems(3) by (simp add: len step(3))
  have "map item_key (items (fold (\<lambda>k. cache_set (tm k) k (vl k) (tt k) (pr k)) ks ?cm))
       = rev ks @ map item_key (items ?cm)
     \<and> evictions (fold (\<lambda>k. cache_set (tm k) k (vl k) (tt k) (pr k)) ks ?cm) = evictions ?cm
     \<and> maxSize (fold (\<lambda>k. cache_set (tm k) k (vl k) (tt k) (pr k)) ks ?cm) = maxSize ?cm"
    by (rule Cons.IH [OF d disj cap])
  then show ?case by (simp add: step)
qed

lemma capacity_eviction:
  assumes "distinct (ks @ [k])" "length ks = n" "0 < n"
  shows "map item_key (items (fold (\<lambda>k. cache_set (tm k) k (vl k) (tt k) (pr k)) (ks @ [k])
            (new_cache n a))) = k # rev (tl ks)
     \<and> evictions (fold (\<lambda>k. cache_set (tm k) k (vl k) (tt k) (pr k)) (ks @ [k])
            (new_cache n a)) = 1"
proof -
  let ?f = "\<lambda>k. cache_set (tm k) k (vl k) (tt k) (pr k)"
  let ?cm = "fold ?f ks (new_cache n a)"
  have d: "distinct ks" using assms(1) by simp
  have e: "set ks \<inter> item_key ` set (items (new_cache n a :: 'a CacheManager)) = {}"
    by (simp add: new_cache_def)
  have c: "length (items (new_cache n a :: 'a CacheManager)) + length ks
      \<le> maxSize (new_cache n a :: 'a CacheManager)"
    using assms(2) by (simp add: new_cache_def)
  note fill = fill_below_capacity [OF d e c, where tm = tm and vl = vl and tt = tt and pr = pr]
  have i: "items (new_cache n a :: 'a CacheManager) = []"
    "evictions (new_cache n a :: 'a CacheManager) = 0"
    "maxSize (new_cache n a :: 'a CacheManager) = n"
    by (simp_all add: new_cache_def)
  from fill have keys: "map item_key (items ?cm) = rev ks" and ev: "evictions ?cm = 0"
    and mx: "maxSize ?cm = n"
    by (simp_all only: i append_Nil2 list.map)
  have len: "length (items ?cm) = n" using arg_cong [OF keys, of length] assms(2) by simp
  have ne: "items ?cm \<noteq> []" using len assms(3) by auto
  have k: "k \<notin> item_key ` set (items ?cm)"
  proof -
    have "item_key ` set (items ?cm) = set ks" using arg_cong [OF keys, of set] by simp
    then show ?thesis using assms(1) by simp
  qed
  note step = cache_set_full [OF k ne, of "tm k" "vl k" "tt k" "pr k"]
  have "butlast (rev ks) = rev (tl ks)" by simp
  then show ?thesis
    using step len mx by (simp add: keys ev)
qed

subsection \<open>The optimization sweep\<close>

lemma items_optimize_step:
  "items (optimize_step k cm) = filter (\<lambda>it. item_key it \<noteq> k) (items cm)"
  by (simp add: optimize_step_def Let_def items_lru_delete)

lemma evictions_optimize_step:
  "evictions (optimize_step k cm) =
     evictions cm + (if k \<in> item_key ` set (items cm) then 2 else 1)"
  by (simp add: optimize_step_def Let_def evictions_lru_delete)

lemma stats_optimize_step:
  "hits (optimize_step k cm) = hits cm" "misses (optimize_step k cm) = misses cm"
  "sets (optimize_step k cm) = sets cm" "maxSize (optimize_step k cm) = maxSize cm"
  by (auto simp: optimize_step_def Let_def lru_delete_def lru_remove_def dispose_def
      split: option.splits)

lemma items_fold_optimize_step:
  "items (fold optimize_step ks cm) = filter (\<lambda>it. item_key it \<notin> set ks) (items cm)"
proof (induction ks arbitrary: cm)
  case Nil
  show ?case by simp
next
  case (Cons k ks)
  have "(\<lambda>it. item_key it \<notin> set ks \<and> item_key it \<noteq> k) = (\<lambda>it. item_key it \<notin> set (k # ks))"
    by auto
  then show ?case
    by (simp add: Cons.IH items_optimize_step)
qed

lemma evictions_fold_optimize_step_ge:
  "evictions cm + length ks \<le> evictions (fold optimize_step ks cm)"
proof (induction ks arbitrary: cm)
  case Nil
  show ?case by simp
next
  case (Cons k ks)
  have "evictions cm + 1 \<le> evictions (optimize_step k cm)"
    by (simp add: evictions_optimize_step)
  moreover have "evictions (optimize_step k cm) + length ks
      \<le> evictions (fold optimize_step ks (optimize_step k cm))"
    by (rule Cons.IH)
  ultimately show ?case by simp
qed

lemma evictions_fold_optimize_step_exact:
  "distinct ks \<Longrightarrow> set ks \<subseteq> item_key ` set (items cm)
     \<Longrightarrow> evictions (fold optimize_step ks cm) = evictions cm + 2 * length ks"
proof (induction ks arbitrary: cm)
  case Nil
  show ?case by simp
next
  case (Cons k ks)
  from Cons.prems have k: "k \<in> item_key ` set (items cm)" and d: "distinct ks"
    and nk: "k \<notin> set ks" and sub: "set ks \<subseteq> item_key ` set (items cm)"
    by simp_all
  have "set ks \<subseteq> item_key ` set (items (optimize_step k cm))"
    using sub nk by (auto simp: items_optimize_step)
  from Cons.IH [OF d this] show ?case
    by (simp add: evictions_optimize_step k)
qed

lemma stats_fold_optimize_step:
  "hits (fold optimize_step ks cm) = hits cm \<and> misses (fold optimize_step ks cm) = misses cm
   \<and> sets (fold optimize_step ks cm) = sets cm
   \<and> maxSize (fold optimize_step ks cm) = maxSize cm"
  by (induction ks arbitrary: cm) (simp_all add: stats_optimize_step)

lemma optimize_candidates:
  "map key (filter (optimize_candidate now) (lru_entries now cm))
     = map item_key (filter (swept now) (items cm))"
proof -
  have "map key (filter (optimize_candidate now) (map entry xs))
      = map item_key (filter (\<lambda>it. optimize_candidate now (entry it)) xs)" for xs :: "'a item list"
    by (induction xs) (simp_all add: item_key_def)
  moreover have "filter (\<lambda>it. optimize_candidate now (entry it))
        (filter (\<lambda>it. \<not> isStale now it) (items cm)) = filter (swept now) (items cm)"
    by (simp add: swept_def [abs_def] conj_commute)
  ultimately show ?thesis
    by (simp add: lru_entries_def)
qed

lemma swept_iff_key:
  assumes "distinct (map item_key xs)" "it \<in> set xs"
  shows "item_key it \<in> item_key ` set (filter (swept now) xs) \<longleftrightarrow> swept now it"
proof
  assume "item_key it \<in> item_key ` set (filter (swept now) xs)"
  then obtain it' where it': "it' \<in> set xs" "swept now it'" "item_key it' = item_key it"
    by auto
  from assms(1) have "inj_on item_key (set xs)" by (simp add: distinct_map)
  with it' assms(2) have "it' = it" by (auto dest: inj_onD)
  with it' show "swept now it" by simp
next
  assume "swept now it"
  with assms(2) show "item_key it \<in> item_key ` set (filter (swept now) xs)" by auto
qed

lemma optimize_exact_count:
  assumes "distinct_keys cm"
  shows "evictions (optimize now cm)
     = evictions cm + 2 * length (filter (swept now) (items cm))"
proof -
  have "distinct (map item_key (filter (swept now) (items cm)))"
    using assms by (simp add: distinct_keys_def distinct_map_filter)
  moreover have "set (map item_key (filter (swept now) (items cm))) \<subseteq> item_key ` set (items cm)"
    by auto
  ultimately show ?thesis
    by (simp add: optimize_def Let_def optimize_candidates evictions_fold_optimize_step_exact)
qed

text \<open>
  C6, as the claim states it, fails: a LOW entry set at time 0 with a time-to-live of
  1000 ms and never read is removed by \<open>optimize\<close> at time 600, and the evictions
  counter does not stay as it was.
\<close>

theorem optimize_counts_evictions_counterexample:
  "items (cache_set 0 ''a'' () (Some 1000) LOW (new_cache 10 300000)) \<noteq> []
   \<and> items (optimize 600 (cache_set 0 ''a'' () (Some 1000) LOW (new_cache 10 300000))) = []
   \<and> evictions (optimize 600 (cache_set 0 ''a'' () (Some 1000) LOW (new_cache 10 300000)))
       \<noteq> evictions (cache_set 0 ''a'' () (Some 1000) LOW (new_cache 10 300000))"
  by (simp add: optimize_def optimize_step_def optimize_candidate_def lru_entries_def
      isStale_def cache_set_def lru_set_def lru_delete_def lru_find_def lru_remove_def
      dispose_def new_cache_def item_key_def Let_def)

text \<open>
  C6, amended. A call of \<open>optimize\<close> removes exactly those entries that have not
  expired and whose priority is LOW, whose accessCount is below 2 and whose age exceeds
  half their time-to-live; all other entries keep their place and their contents; every
  removal counts toward the evictions counter, which grows by at least the number of
  removed entries; the other counters do not change.
\<close>

theorem optimize_sweep:
  assumes "distinct_keys cm"
  shows "items (optimize now cm) = filter (\<lambda>it. \<not> swept now it) (items cm)
     \<and> evictions cm + length (filter (swept now) (items cm)) \<le> evictions (optimize now cm)
     \<and> hits (optimize now cm) = hits cm \<and> misses (optimize now cm) = misses cm
     \<and> sets (optimize now cm) = sets cm"
proof -
  let ?ks = "map item_key (filter (swept now) (items cm))"
  have opt: "optimize now cm = fold optimize_step ?ks cm"
    by (simp add: optimize_def Let_def optimize_candidates)
  have "filter (\<lambda>it. item_key it \<notin> set ?ks) (items cm)
      = filter (\<lambda>it. \<not> swept now it) (items cm)"
  proof (rule filter_cong [OF refl])
    fix it assume "it \<in> set (items cm)"
    with assms have "item_key it \<in> item_key ` set (filter (swept now) (items cm))
        \<longleftrightarrow> swept now it"
      by (intro swept_iff_key) (simp_all add: distinct_keys_def)
    then show "(item_key it \<notin> set ?ks) = (\<not> swept now it)" by simp
  qed
  then have "items (optimize now cm) = filter (\<lambda>it. \<not> swept now it) (items cm)"
    by (simp only: opt items_fold_optimize_step)
  moreover have "evictions cm + length (filter (swept now) (items cm))
      \<le> evictions (optimize now cm)"
    using evictions_fold_optimize_step_ge [of cm ?ks] by (simp add: opt)
  ultimately show ?thesis
    using stats_fold_optimize_step [of ?ks cm] by (simp add: opt)
qed

theorem optimize_sweep_witness:
  "map item_key (items (optimize 600
      (cache_set 100 ''c'' () (Some 1000) HIGH
        (cache_set 0 ''b'' () (Some 1000) LOW
          (cache_set 0 ''a'' () (Some 400) LOW (new_cache 10 300000)))))) = [''c'', ''a'']
   \<and> 1 \<le> evictions (optimize 600
      (cache_set 100 ''c'' () (Some 1000) HIGH
        (cache_set 0 ''b'' () (Some 1000) LOW
          (cache_set 0 ''a'' () (Some 400) LOW (new_cache 10 300000)))))"
  using optimize_sweep [of "cache_set 100 ''c'' () (Some 1000) HIGH
        (cache_set 0 ''b'' () (Some 1000) LOW
          (cache_set 0 ''a'' () (Some 400) LOW (new_cache 10 300000)))" 600]
  by (simp add: distinct_keys_def swept_def optimize_candidate_def isStale_def
      cache_set_def lru_set_def lru_find_def lru_remove_def
      dispose_def new_cache_def item_key_def Let_def)

section \<open>Properties of the orchestrator\<close>

text \<open>
  C7 (unregistered peer). When the sender or the receiver of a message is not in the
  registry, \<open>sendMessage\<close> returns false and the state after the call is the state
  before it: the registry with the private memory of every agent, and the cache with
  its entries and its counters.
\<close>

theorem unregistered_peer_no_effect:
  assumes "map_of (agents st) (senderId message) = None
     \<or> map_of (agents st) (receiverId message) = None"
  shows "sendMessage z now message st = (Inr False, st)"
  using assms by (auto simp: sendMessage_def sendMessage_try_def)

theorem unregistered_peer_no_effect_witness:
  "sendMessage no_zlib 5
     \<lparr>msg_id = ''m1'', msg_timestamp = 4, senderId = ''A'', receiverId = ''B'',
      content = JString ''hello'', messageType = QUERY, msg_priority = NORMAL,
      compressed = False, encoding = JSON\<rparr>
     (registerAgent
        \<lparr>agent_id = ''A'', agent_name = ''a'', capabilities = [], memoryContext = [],
         lastActive = 0\<rparr> new_layer)
   = (Inr False,
      registerAgent
        \<lparr>agent_id = ''A'', agent_name = ''a'', capabilities = [], memoryContext = [],
         lastActive = 0\<rparr> new_layer)"
  by (rule unregistered_peer_no_effect) (simp add: registerAgent_def new_layer_def)

text \<open>
  C8 (fault absorption). \<open>sendMessage\<close> never ends with an exception: its result is
  always a boolean, and whenever the body of its \<open>try\<close> block raises, in whichever
  phase, the result is false.
\<close>

theorem sendMessage_absorbs_faults:
  "(\<exists>b. fst (sendMessage z now message st) = Inr b)
   \<and> (\<forall>e. fst (sendMessage_try z now message st) = Inl e
        \<longrightarrow> fst (sendMessage z now message st) = Inr False)"
  by (auto simp: sendMessage_def split: prod.splits sum.splits)

theorem sendMessage_absorbs_faults_witness:
  "fst (sendMessage_try no_zlib 5
     \<lparr>msg_id = ''m1'', msg_timestamp = 4, senderId = ''A'', receiverId = ''B'',
      content = JInt 2147483648, messageType = DATA_TRANSFER, msg_priority = NORMAL,
      compressed = False, encoding = A114\<rparr>
     (registerAgent
        \<lparr>agent_id = ''B'', agent_name = ''b'', capabilities = [], memoryContext = [],
         lastActive = 0\<rparr>
        (registerAgent
           \<lparr>agent_id = ''A'', agent_name = ''a'', capabilities = [], memoryContext = [],
            lastActive = 0\<rparr> new_layer))) = Inl OutOfRange
   \<and> fst (sendMessage no_zlib 5
     \<lparr>msg_id = ''m1'', msg_timestamp = 4, senderId = ''A'', receiverId = ''B'',
      content = JInt 2147483648, messageType = DATA_TRANSFER, msg_priority = NORMAL,
      compressed = False, encoding = A114\<rparr>
     (registerAgent
        \<lparr>agent_id = ''B'', agent_name = ''b'', capabilities = [], memoryContext = [],
         lastActive = 0\<rparr>
        (registerAgent
           \<lparr>agent_id = ''A'', agent_name = ''a'', capabilities = [], memoryContext = [],
            lastActive = 0\<rparr> new_layer))) = Inr False"
proof -
  let ?m = "\<lparr>msg_id = ''m1'', msg_timestamp = 4, senderId = ''A'', receiverId = ''B'',
      content = JInt 2147483648, messageType = DATA_TRANSFER, msg_priority = NORMAL,
      compressed = False, encoding = A114\<rparr>"
  let ?st = "registerAgent
        \<lparr>agent_id = ''B'', agent_name = ''b'', capabilities = [], memoryContext = [],
         lastActive = 0\<rparr>
        (registerAgent
           \<lparr>agent_id = ''A'', agent_name = ''a'', capabilities = [], memoryContext = [],
            lastActive = 0\<rparr> new_layer)"
  have t: "fst (sendMessage_try no_zlib 5 ?m ?st) = Inl OutOfRange"
    by (simp add: sendMessage_try_def optimizeMessage_def registerAgent_def new_layer_def
        encode_def encodePayload_def tagged_def writeInt32BE_def)
  with sendMessage_absorbs_faults [of no_zlib 5 ?m ?st] show ?thesis by simp
qed

text \<open>
  A delivery that succeeds, for comparison: with both agents registered the message is
  stored in the cache and in the memory of the receiver, and the result is true.
\<close>

lemma delivery_success_example:
  "fst (sendMessage no_zlib 5
     \<lparr>msg_id = ''m1'', msg_timestamp = 4, senderId = ''A'', receiverId = ''B'',
      content = JInt 7, messageType = DATA_TRANSFER, msg_priority = NORMAL,
      compressed = False, encoding = A114\<rparr>
     (registerAgent
        \<lparr>agent_id = ''B'', agent_name = ''b'', capabilities = [], memoryContext = [],
         lastActive = 0\<rparr>
        (registerAgent
           \<lparr>agent_id = ''A'', agent_name = ''a'', capabilities = [], memoryContext = [],
            lastActive = 0\<rparr> new_layer))) = Inr True"
  by (simp add: sendMessage_def sendMessage_try_def optimizeMessage_def registerAgent_def
      new_layer_def encode_def encodePayload_def createHeader_def writeUInt32BE_def tagged_def
      writeInt8_def routeMessage_def testMessageDelivery_def cache_has_def lru_has_def
      cache_set_def lru_set_def lru_find_def new_cache_def item_key_def isStale_def
      generateFeedback_def validateDelivery_def updateAgentMemory_def extractLearnings_def
      Let_def)

section \<open>Properties of the content transform\<close>

subsection \<open>The words of the tables\<close>

lemma commonTerms_letter_first:
  "list_all (\<lambda>(full, abbrev). letter_first full \<and> letter_first abbrev) commonTerms"
  by (simp add: commonTerms_def letter_first_def isLower_def)

lemma keys_mapSet: "fst ` set (mapSet m k v) = insert k (fst ` set m)"
  by (induction m) auto

lemma keys_fold_mapSet:
  "fst ` set (fold (\<lambda>p m. mapSet m (f p) (g p)) xs m) = fst ` set m \<union> f ` set xs"
  by (induction xs arbitrary: m) (auto simp: keys_mapSet)

lemma keys_abbreviations: "fst ` set abbreviations = fst ` set commonTerms"
  unfolding abbreviations_def split_def
  using keys_fold_mapSet [of fst snd commonTerms "[]"] by simp

lemma keys_reverseAbbreviations: "fst ` set reverseAbbreviations = snd ` set commonTerms"
  unfolding reverseAbbreviations_def split_def
  using keys_fold_mapSet [of snd fst commonTerms "[]"] by simp

lemma abbreviations_letter_first: "p \<in> set abbreviations \<Longrightarrow> letter_first (fst p)"
proof -
  assume "p \<in> set abbreviations"
  then have "fst p \<in> fst ` set commonTerms" using keys_abbreviations by blast
  then show ?thesis
    using commonTerms_letter_first by (auto simp: list_all_iff)
qed

lemma reverseAbbreviations_letter_first:
  "p \<in> set reverseAbbreviations \<Longrightarrow> letter_first (fst p)"
proof -
  assume "p \<in> set reverseAbbreviations"
  then have "fst p \<in> snd ` set commonTerms" using keys_reverseAbbreviations by blast
  then show ?thesis
    using commonTerms_letter_first by (auto simp: list_all_iff)
qed

subsection \<open>Text without letters\<close>





subsection \<open>Text in which no word of the tables occurs\<close>






subsection \<open>Text of ASCII characters\<close>








subsection \<open>The strings that come back\<close>




subsection \<open>compress followed by decompress\<close>







text \<open>
  An array does not come back either: \<open>compress\<close> and \<open>decompress\<close> both rebuild it
  as an object.
\<close>

lemma transform_array_becomes_object:
  "\<exists>ps. decompress z (compress z (JArray xs)) = JObject ps"
  by simp

subsection \<open>Keys and objects that come back\<close>












end
